theory Spec2Isabelle
  imports Main
begin

section \<open>Redundant array removal on stateful dataflow graphs\<close>

text \<open>
  A shallow embedding of \<^verbatim>\<open>dace/transformation/dataflow/redundant_array.py\<close>:
  the two transformations \<^verbatim>\<open>RedundantArray\<close> (the forward rule, which removes the
  first of two access nodes) and \<^verbatim>\<open>RedundantSecondArray\<close> (the backward rule, which
  removes the second). A Python exception is a value \<open>Inl e\<close> of a sum type, a
  normal result is \<open>Inr v\<close>.
\<close>

subsection \<open>Exceptions\<close>

datatype py_error = IndexError | KeyError | AttributeError | DimensionMismatch

definition bind :: "py_error + 'a \<Rightarrow> ('a \<Rightarrow> py_error + 'b) \<Rightarrow> py_error + 'b" where
  "bind m f = (case m of Inl e \<Rightarrow> Inl e | Inr x \<Rightarrow> f x)"

text \<open>\<^verbatim>\<open>xs[i]\<close> for a non-negative index: \<^verbatim>\<open>IndexError\<close> out of range.\<close>

definition list_get :: "'a list \<Rightarrow> nat \<Rightarrow> py_error + 'a" where
  "list_get xs i = (if i < length xs then Inr (xs ! i) else Inl IndexError)"

text \<open>A \<^verbatim>\<open>for\<close> loop over a list that threads a state and stops at the first exception.\<close>

fun for_each :: "('s \<Rightarrow> 'a \<Rightarrow> py_error + 's) \<Rightarrow> 'a list \<Rightarrow> 's \<Rightarrow> py_error + 's" where
  "for_each body [] s = Inr s"
| "for_each body (x # xs) s = bind (body s x) (for_each body xs)"

subsection \<open>Region algebra\<close>

text \<open>
  Modelled from the spec: the module \<^verbatim>\<open>dace.subsets\<close> is not among the source files.
  A region is a point (\<open>Indices\<close>, one coordinate per dimension) or a strided range
  (\<open>Range\<close>, per dimension the first index, the last index (inclusive) and the
  stride, so that the half-open interval \<open>[a, a+b)\<close> with unit stride is
  \<open>(a, a+b-1, 1)\<close>). The spec (section 4.1) gives four operations: the element
  count, \<open>offset\<close>, \<open>covers\<close> and \<open>compose\<close>; \<open>offset\<close> and \<open>compose\<close> fail on
  regions of different dimensionality (section 7, \<open>DimensionMismatch\<close>).
\<close>

datatype subset_t = Indices "int list" | Range "(int \<times> int \<times> int) list"

fun dims :: "subset_t \<Rightarrow> nat" where
  "dims (Indices xs) = length xs"
| "dims (Range rs) = length rs"

fun min_element :: "subset_t \<Rightarrow> int list" where
  "min_element (Indices xs) = xs"
| "min_element (Range rs) = map (\<lambda>(b, e, s). b) rs"

fun max_element :: "subset_t \<Rightarrow> int list" where
  "max_element (Indices xs) = xs"
| "max_element (Range rs) = map (\<lambda>(b, e, s). e) rs"

text \<open>
  Modelled from the spec: the per-dimension sizes of a region. A point has size 1
  in every dimension; a range with positive stride \<open>s\<close> from \<open>b\<close> to \<open>e\<close> holds
  \<open>\<lceil>(e - b + 1) / s\<rceil>\<close> indices.
\<close>

fun subset_size :: "subset_t \<Rightarrow> int list" where
  "subset_size (Indices xs) = map (\<lambda>x. 1) xs"
| "subset_size (Range rs) = map (\<lambda>(b, e, s). (e - b + s) div s) rs"

definition num_elements :: "subset_t \<Rightarrow> int" where
  "num_elements r = prod_list (subset_size r)"

text \<open>Every bound of a region moved by the given amount, dimension by dimension.\<close>

fun translate :: "int list \<Rightarrow> subset_t \<Rightarrow> subset_t" where
  "translate ds (Indices xs) = Indices (map (\<lambda>(x, d). x + d) (zip xs ds))"
| "translate ds (Range rs) = Range (map (\<lambda>((b, e, s), d). (b + d, e + d, s)) (zip rs ds))"

text \<open>
  Modelled from the spec: \<open>offset(region, reference, negative)\<close> translates every
  dimension of the region by the corresponding lower bound of the reference,
  subtracted if \<open>negative\<close>, added otherwise. (The Python method updates the region
  in place; here the updated region is returned.)
\<close>

definition offset :: "subset_t \<Rightarrow> subset_t \<Rightarrow> bool \<Rightarrow> py_error + subset_t" where
  "offset region reference negative =
     (if dims region \<noteq> dims reference then Inl DimensionMismatch
      else Inr (translate (map (\<lambda>d. if negative then - d else d) (min_element reference)) region))"

text \<open>
  Modelled from the spec: \<open>compose(outer, inner)\<close> re-indexes \<open>inner\<close> inside the
  coordinate frame of \<open>outer\<close>: each bound of \<open>inner\<close> is added to the corresponding
  lower bound of \<open>outer\<close>.
\<close>

definition compose :: "subset_t \<Rightarrow> subset_t \<Rightarrow> py_error + subset_t" where
  "compose outer inner =
     (if dims outer \<noteq> dims inner then Inl DimensionMismatch
      else Inr (translate (min_element outer) inner))"

text \<open>
  Modelled from the spec: \<open>covers(a, b)\<close> holds iff in every dimension the lower and
  the upper bound of \<open>b\<close> lie within the bounds of \<open>a\<close>; it is a Boolean, false on
  regions of different dimensionality.
\<close>

definition covers :: "subset_t \<Rightarrow> subset_t \<Rightarrow> bool" where
  "covers a b =
     (dims a = dims b
      \<and> list_all2 (\<le>) (min_element a) (min_element b)
      \<and> list_all2 (\<le>) (max_element b) (max_element a))"

subsection \<open>Graph model\<close>

text \<open>
  Modelled from the spec and the tests: the graph classes of \<^verbatim>\<open>dace.sdfg\<close> are not
  among the source files. A node is a data node (\<^verbatim>\<open>AccessNode\<close>, naming one
  container) or a compute or control node, opaque here; \<open>nid\<close> stands for the
  identity of the node object. A memlet carries the container name \<^verbatim>\<open>data\<close>, the
  region \<^verbatim>\<open>subset\<close> and the optional region \<^verbatim>\<open>other_subset\<close>; a missing value is
  \<^verbatim>\<open>None\<close>. An edge carries its two endpoints, its two connectors and its memlet
  (\<^verbatim>\<open>e.data\<close>, here \<open>edata\<close>); \<open>eid\<close> stands for the identity of the edge object.
\<close>

datatype node_type = AccessNode string | CodeNode

record node =
  nid :: nat
  ntype :: node_type

record memlet =
  data :: "string option"
  subset :: "subset_t option"
  other_subset :: "subset_t option"

record edge =
  eid :: nat
  src :: node
  src_conn :: "string option"
  dst :: node
  dst_conn :: "string option"
  edata :: memlet

text \<open>
  A state of the program is a directed multigraph: \<^verbatim>\<open>graph.nodes()\<close> is the list of
  its node objects (the tests take its length and test membership of a node), and
  a candidate maps each of the two pattern roles to a position in that list
  (\<^verbatim>\<open>graph.nodes()[candidate[...]]\<close>).
\<close>

record state =
  nodes :: "node list"
  edges :: "edge list"

record candidate =
  c_in_array :: nat
  c_out_array :: nat

text \<open>
  A container descriptor. \<open>dkind\<close> is the concrete class of the descriptor
  (\<^verbatim>\<open>type(desc)\<close>); \<open>oid\<close> stands for the identity of the descriptor object, by which
  two descriptors are compared (spec, section 9).
\<close>

datatype desc_kind = Array | Stream | Scalar

datatype storage_type = Default | Register | CPU_Heap | GPU_Global | GPU_Shared | FPGA_Global

record data_desc =
  oid :: nat
  dkind :: desc_kind
  shape :: "int list"
  storage :: storage_type
  transient :: bool

text \<open>The whole program: its states (\<^verbatim>\<open>sdfg.nodes()\<close>) and the container registry.\<close>

record sdfg =
  states :: "state list"
  arrays :: "string \<rightharpoonup> data_desc"

text \<open>\<^verbatim>\<open>node.data\<close>: only an access node has the attribute.\<close>

definition node_data :: "node \<Rightarrow> py_error + string" where
  "node_data n = (case ntype n of AccessNode d \<Rightarrow> Inr d | CodeNode \<Rightarrow> Inl AttributeError)"

text \<open>\<^verbatim>\<open>node.desc(sdfg)\<close>: the registry entry of the container the node names.\<close>

definition desc :: "node \<Rightarrow> sdfg \<Rightarrow> py_error + data_desc" where
  "desc n sd = bind (node_data n) (\<lambda>d. case arrays sd d of None \<Rightarrow> Inl KeyError | Some x \<Rightarrow> Inr x)"

definition is_access :: "node \<Rightarrow> bool" where
  "is_access n = (case ntype n of AccessNode d \<Rightarrow> True | CodeNode \<Rightarrow> False)"

definition in_edges :: "state \<Rightarrow> node \<Rightarrow> edge list" where
  "in_edges graph n = filter (\<lambda>e. dst e = n) (edges graph)"

definition out_edges :: "state \<Rightarrow> node \<Rightarrow> edge list" where
  "out_edges graph n = filter (\<lambda>e. src e = n) (edges graph)"

definition in_degree :: "state \<Rightarrow> node \<Rightarrow> nat" where
  "in_degree graph n = length (in_edges graph n)"

definition out_degree :: "state \<Rightarrow> node \<Rightarrow> nat" where
  "out_degree graph n = length (out_edges graph n)"

definition edges_between :: "state \<Rightarrow> node \<Rightarrow> node \<Rightarrow> edge list" where
  "edges_between graph u v = filter (\<lambda>e. dst e = v) (out_edges graph u)"

subsection \<open>Applicability of the forward rule\<close>

text \<open>
  The scan of \<^verbatim>\<open>can_be_applied\<close> over every state of the program: the access nodes
  whose descriptor equals the given one.
\<close>

definition occurrences_in :: "sdfg \<Rightarrow> data_desc \<Rightarrow> node list \<Rightarrow> node list \<Rightarrow> py_error + node list" where
  "occurrences_in sd d ns acc =
     for_each (\<lambda>acc n. if is_access n
                         then bind (desc n sd) (\<lambda>nd. Inr (if nd = d then acc @ [n] else acc))
                         else Inr acc) ns acc"

definition occurrences :: "sdfg \<Rightarrow> data_desc \<Rightarrow> py_error + node list" where
  "occurrences sd d = for_each (\<lambda>acc st. occurrences_in sd d (nodes st) acc) (states sd) []"

definition RedundantArray_can_be_applied :: "state \<Rightarrow> candidate \<Rightarrow> sdfg \<Rightarrow> bool \<Rightarrow> py_error + bool" where
  "RedundantArray_can_be_applied graph cand sd strict =
     bind (list_get (nodes graph) (c_in_array cand)) (\<lambda>in_array.
     bind (list_get (nodes graph) (c_out_array cand)) (\<lambda>out_array.
     bind (desc in_array sd) (\<lambda>in_desc.
     bind (desc out_array sd) (\<lambda>out_desc.
       if out_degree graph in_array \<noteq> 1 then Inr False
       else if \<not> transient in_desc then Inr False
       else if storage in_desc \<noteq> storage out_desc then Inr False
       else if dkind in_desc \<noteq> dkind out_desc then Inr False
       else bind (occurrences sd in_desc) (\<lambda>occ.
         if length occ > 1 then Inr False
         else if length (shape in_desc) \<noteq> length (shape out_desc)
                 \<or> list_ex (\<lambda>(i, j). i \<noteq> j) (zip (shape in_desc) (shape out_desc))
         then Inr False
         else if strict then
           bind (list_get (edges_between graph in_array out_array) 0) (\<lambda>e.
             case subset (edata e) of
               None \<Rightarrow> Inl AttributeError
             | Some s \<Rightarrow>
                 if list_ex (\<lambda>(m, a). m \<noteq> a) (zip (subset_size s) (shape in_desc))
                 then Inr False else Inr True)
         else Inr True)))))"

subsection \<open>Applicability of the backward rule\<close>

text \<open>
  \<^verbatim>\<open>x = dcpy(other); x.offset(other, negative=True)\<close>: a missing region is
  synthesized from the other one, moved to start at its own origin. When the
  other one is \<^verbatim>\<open>None\<close> too, the call of \<^verbatim>\<open>offset\<close> on \<^verbatim>\<open>None\<close> raises.
\<close>

definition synthesize :: "subset_t option \<Rightarrow> py_error + subset_t" where
  "synthesize other = (case other of None \<Rightarrow> Inl AttributeError | Some r \<Rightarrow> offset r r True)"

text \<open>
  Step 1 of \<^verbatim>\<open>can_be_applied\<close>, repeated at the start of \<^verbatim>\<open>apply\<close>: the regions of the
  first edge between the two nodes, on the side of the first array (\<open>inp_subset\<close>)
  and on the side of the second (\<open>out_subset\<close>). A region that is missing
  (\<^verbatim>\<open>not inp_subset\<close>: the value is \<^verbatim>\<open>None\<close>) is synthesized from the other one.
\<close>

definition connecting_subsets :: "state \<Rightarrow> node \<Rightarrow> node \<Rightarrow> py_error + (subset_t \<times> subset_t)" where
  "connecting_subsets graph in_array out_array =
     bind (list_get (edges_between graph in_array out_array) 0) (\<lambda>e.
     bind (node_data in_array) (\<lambda>in_data.
       let m = edata e;
           inp_subset = (if data m = Some in_data then subset m else other_subset m);
           out_subset = (if data m = Some in_data then other_subset m else subset m)
       in bind (case inp_subset of None \<Rightarrow> synthesize out_subset | Some r \<Rightarrow> Inr r) (\<lambda>inp.
          bind (case out_subset of None \<Rightarrow> synthesize (Some inp) | Some r \<Rightarrow> Inr r) (\<lambda>out.
            Inr (inp, out)))))"

text \<open>
  Step 3a: the region of an outgoing edge of the second array. The last branch is
  the source's: it copies \<^verbatim>\<open>e.data.other_subset\<close>, which is \<^verbatim>\<open>None\<close> there.
\<close>

definition out_edge_subset :: "string \<Rightarrow> edge \<Rightarrow> py_error + subset_t option" where
  "out_edge_subset out_data e =
     (if data (edata e) = Some out_data then Inr (subset (edata e))
      else (case other_subset (edata e) of
              Some r \<Rightarrow> Inr (Some r)
            | None \<Rightarrow> bind (synthesize (other_subset (edata e))) (\<lambda>r. Inr (Some r))))"

text \<open>Step 3b: \<^verbatim>\<open>out_subset.covers(subset)\<close>; the method reads the bounds of its argument.\<close>

definition covers_arg :: "subset_t \<Rightarrow> subset_t option \<Rightarrow> py_error + bool" where
  "covers_arg a b = (case b of None \<Rightarrow> Inl AttributeError | Some r \<Rightarrow> Inr (covers a r))"

fun check_out_edges :: "node \<Rightarrow> subset_t \<Rightarrow> edge list \<Rightarrow> py_error + bool" where
  "check_out_edges out_array out_subset [] = Inr True"
| "check_out_edges out_array out_subset (e # es) =
     bind (node_data out_array) (\<lambda>out_data.
     bind (out_edge_subset out_data e) (\<lambda>s.
     bind (covers_arg out_subset s) (\<lambda>c.
       if \<not> c then Inr False else check_out_edges out_array out_subset es)))"

definition RedundantSecondArray_can_be_applied :: "state \<Rightarrow> candidate \<Rightarrow> sdfg \<Rightarrow> bool \<Rightarrow> py_error + bool" where
  "RedundantSecondArray_can_be_applied graph cand sd strict =
     bind (list_get (nodes graph) (c_in_array cand)) (\<lambda>in_array.
     bind (list_get (nodes graph) (c_out_array cand)) (\<lambda>out_array.
     bind (desc in_array sd) (\<lambda>in_desc.
     bind (desc out_array sd) (\<lambda>out_desc.
       if in_degree graph out_array \<noteq> 1 then Inr False
       else if \<not> transient out_desc then Inr False
       else if storage in_desc \<noteq> storage out_desc then Inr False
       else if dkind in_desc \<noteq> dkind out_desc then Inr False
       else bind (occurrences sd out_desc) (\<lambda>occ.
         if length occ > 1 then Inr False
         else bind (connecting_subsets graph in_array out_array) (\<lambda>(inp_subset, out_subset).
           if num_elements inp_subset = prod_list (shape out_desc) then Inr True
           else check_out_edges out_array out_subset (out_edges graph out_array)))))))"

subsection \<open>Graph mutation\<close>

text \<open>
  Modelled from the spec and the tests: \<^verbatim>\<open>remove_edge\<close>, \<^verbatim>\<open>add_edge\<close> and \<^verbatim>\<open>remove_node\<close>
  of the graph class. \<^verbatim>\<open>add_edge\<close> appends a new edge object, whose identity is an
  argument here. \<^verbatim>\<open>remove_node\<close> removes the node together with the edges that
  still start or end at it (the tests validate the graph after the rules ran, and
  neither rule removes the edge between its two nodes itself).
\<close>

definition remove_edge :: "state \<Rightarrow> edge \<Rightarrow> state" where
  "remove_edge graph e = graph\<lparr>edges := filter (\<lambda>x. eid x \<noteq> eid e) (edges graph)\<rparr>"

definition add_edge :: "state \<Rightarrow> nat \<Rightarrow> node \<Rightarrow> string option \<Rightarrow> node \<Rightarrow> string option \<Rightarrow> memlet \<Rightarrow> state" where
  "add_edge graph i u u_conn v v_conn m =
     graph\<lparr>edges := edges graph @ [\<lparr>eid = i, src = u, src_conn = u_conn, dst = v, dst_conn = v_conn, edata = m\<rparr>]\<rparr>"

definition remove_node :: "state \<Rightarrow> node \<Rightarrow> state" where
  "remove_node graph n =
     graph\<lparr>nodes := filter (\<lambda>x. x \<noteq> n) (nodes graph),
           edges := filter (\<lambda>e. src e \<noteq> n \<and> dst e \<noteq> n) (edges graph)\<rparr>"

text \<open>
  The loops of \<^verbatim>\<open>apply\<close> hold edge objects and update memlets in place. Here an edge
  object is its identity \<open>eid\<close> together with the edge of that identity in the
  current graph: \<open>current\<close> reads the object, \<open>modify_edge\<close> updates its memlet.
\<close>

definition current :: "state \<Rightarrow> edge \<Rightarrow> edge" where
  "current graph e = (case find (\<lambda>x. eid x = eid e) (edges graph) of Some x \<Rightarrow> x | None \<Rightarrow> e)"

fun map_err :: "('a \<Rightarrow> py_error + 'b) \<Rightarrow> 'a list \<Rightarrow> py_error + 'b list" where
  "map_err f [] = Inr []"
| "map_err f (x # xs) = bind (f x) (\<lambda>y. bind (map_err f xs) (\<lambda>ys. Inr (y # ys)))"

definition modify_edge :: "(memlet \<Rightarrow> py_error + memlet) \<Rightarrow> state \<Rightarrow> nat \<Rightarrow> py_error + state" where
  "modify_edge f graph i =
     bind (map_err (\<lambda>x. if eid x = i then bind (f (edata x)) (\<lambda>m. Inr (x\<lparr>edata := m\<rparr>)) else Inr x)
             (edges graph))
          (\<lambda>es. Inr (graph\<lparr>edges := es\<rparr>))"

text \<open>
  \<^verbatim>\<open>memlet_path\<close> and \<^verbatim>\<open>memlet_tree\<close> of the graph class are not among the source
  files; the two \<^verbatim>\<open>apply\<close> functions take them as a parameter, a function from the
  current graph and an edge to the identities of the edges of its path or tree. In
  a graph without scope nodes the path and the tree of an edge are the edge itself:
\<close>

definition direct_path :: "state \<Rightarrow> edge \<Rightarrow> nat list" where
  "direct_path graph e = [eid e]"

subsection \<open>The two apply functions\<close>

text \<open>
  What \<^verbatim>\<open>apply\<close> can change: the program, and the class attributes
  \<^verbatim>\<open>RedundantArray._arrays_removed\<close> and \<^verbatim>\<open>RedundantSecondArray._arrays_removed\<close>;
  \<open>debugprint\<close> is the value of \<^verbatim>\<open>Config.get_bool("debugprint")\<close>. A transformation
  object holds the position of its state and its candidate.
\<close>

record world =
  program :: sdfg
  debugprint :: bool
  RedundantArray_arrays_removed :: int
  RedundantSecondArray_arrays_removed :: int

record transformation =
  state_id :: nat
  subgraph :: candidate

text \<open>The body of the inner loop of \<^verbatim>\<open>RedundantArray.apply\<close>, on the memlet of \<open>pe\<close>.\<close>

definition rename_memlet :: "node \<Rightarrow> node \<Rightarrow> memlet \<Rightarrow> py_error + memlet" where
  "rename_memlet in_array out_array m =
     bind (node_data in_array) (\<lambda>in_data.
       if data m = Some in_data
       then bind (node_data out_array) (\<lambda>out_data. Inr (m\<lparr>data := Some out_data\<rparr>))
       else Inr m)"

text \<open>The body of the outer loop of \<^verbatim>\<open>RedundantArray.apply\<close>, for the incoming edge \<open>e\<close>.\<close>

definition redirect_in_edge :: "(state \<Rightarrow> edge \<Rightarrow> nat list) \<Rightarrow> node \<Rightarrow> node \<Rightarrow> state \<Rightarrow> edge \<Rightarrow> py_error + state" where
  "redirect_in_edge memlet_path in_array out_array graph e =
     bind (for_each (modify_edge (rename_memlet in_array out_array))
             (memlet_path graph (current graph e)) graph) (\<lambda>g1.
       Inr (add_edge (remove_edge g1 e) (eid e) (src e) (src_conn e) out_array (dst_conn e)
              (edata (current g1 e))))"

definition set_state :: "world \<Rightarrow> nat \<Rightarrow> state \<Rightarrow> world" where
  "set_state w i graph = w\<lparr>program := (program w)\<lparr>states := (states (program w))[i := graph]\<rparr>\<rparr>"

definition RedundantArray_apply :: "(state \<Rightarrow> edge \<Rightarrow> nat list) \<Rightarrow> transformation \<Rightarrow> world \<Rightarrow> py_error + world" where
  "RedundantArray_apply memlet_path t w =
     bind (list_get (states (program w)) (state_id t)) (\<lambda>graph.
     bind (list_get (nodes graph) (c_in_array (subgraph t))) (\<lambda>in_array.
     bind (list_get (nodes graph) (c_out_array (subgraph t))) (\<lambda>out_array.
     bind (for_each (redirect_in_edge memlet_path in_array out_array)
             (in_edges graph in_array) graph) (\<lambda>g1.
       let w1 = set_state w (state_id t) (remove_node g1 in_array)
       in Inr (if debugprint w1
               then w1\<lparr>RedundantArray_arrays_removed := RedundantArray_arrays_removed w1 + 1\<rparr>
               else w1)))))"

text \<open>
  The region arithmetic of \<^verbatim>\<open>RedundantSecondArray.apply\<close>: the region is offset by
  \<open>out_subset\<close> (negative), then added to a copy of \<open>inp_subset\<close> when that is a point,
  composed into \<open>inp_subset\<close> otherwise.
\<close>

definition migrate_subset :: "subset_t \<Rightarrow> subset_t \<Rightarrow> subset_t option \<Rightarrow> py_error + subset_t" where
  "migrate_subset inp_subset out_subset s =
     (case s of
        None \<Rightarrow> Inl AttributeError
      | Some r \<Rightarrow>
          bind (offset r out_subset True) (\<lambda>r1.
            case inp_subset of
              Indices xs \<Rightarrow> offset inp_subset r1 False
            | Range rs \<Rightarrow> compose inp_subset r1))"

text \<open>The body of the inner loop of \<^verbatim>\<open>RedundantSecondArray.apply\<close>, on the memlet of \<open>pe\<close>.\<close>

definition migrate_memlet :: "node \<Rightarrow> node \<Rightarrow> subset_t \<Rightarrow> subset_t \<Rightarrow> memlet \<Rightarrow> py_error + memlet" where
  "migrate_memlet in_array out_array inp_subset out_subset m =
     bind (node_data out_array) (\<lambda>out_data.
       if data m = Some out_data
       then bind (node_data in_array) (\<lambda>in_data.
              bind (migrate_subset inp_subset out_subset (subset m)) (\<lambda>s.
                Inr (m\<lparr>data := Some in_data, subset := Some s\<rparr>)))
       else (case other_subset m of
               Some r \<Rightarrow> bind (migrate_subset inp_subset out_subset (Some r)) (\<lambda>s.
                           Inr (m\<lparr>other_subset := Some s\<rparr>))
             | None \<Rightarrow> Inr m))"

text \<open>The body of the outer loop of \<^verbatim>\<open>RedundantSecondArray.apply\<close>, for the outgoing edge \<open>e\<close>.\<close>

definition redirect_out_edge :: "(state \<Rightarrow> edge \<Rightarrow> nat list) \<Rightarrow> node \<Rightarrow> node \<Rightarrow> subset_t \<Rightarrow> subset_t \<Rightarrow> state \<Rightarrow> edge \<Rightarrow> py_error + state" where
  "redirect_out_edge memlet_tree in_array out_array inp_subset out_subset graph e =
     bind (for_each (modify_edge (migrate_memlet in_array out_array inp_subset out_subset))
             (memlet_tree graph (current graph e)) graph) (\<lambda>g1.
       Inr (add_edge (remove_edge g1 e) (eid e) in_array (src_conn e) (dst e) (dst_conn e)
              (edata (current g1 e))))"

definition RedundantSecondArray_apply :: "(state \<Rightarrow> edge \<Rightarrow> nat list) \<Rightarrow> transformation \<Rightarrow> world \<Rightarrow> py_error + world" where
  "RedundantSecondArray_apply memlet_tree t w =
     bind (list_get (states (program w)) (state_id t)) (\<lambda>graph.
     bind (list_get (nodes graph) (c_in_array (subgraph t))) (\<lambda>in_array.
     bind (list_get (nodes graph) (c_out_array (subgraph t))) (\<lambda>out_array.
     bind (connecting_subsets graph in_array out_array) (\<lambda>(inp_subset, out_subset).
     bind (for_each (redirect_out_edge memlet_tree in_array out_array inp_subset out_subset)
             (out_edges graph out_array) graph) (\<lambda>g1.
       let w1 = set_state w (state_id t) (remove_node g1 out_array)
       in Inr (if debugprint w1
               then w1\<lparr>RedundantSecondArray_arrays_removed := RedundantSecondArray_arrays_removed w1 + 1\<rparr>
               else w1))))))"

subsection \<open>The forward apply in the words of the specification\<close>

text \<open>
  What the specification says \<^verbatim>\<open>RedundantArray.apply\<close> does to the graph, written
  as one expression over the graph it starts from: every edge that lies on the
  path of an incoming edge of the first array and names its container names the
  second array's container instead; every incoming edge of the first array ends
  at the second array, with the source, the connectors and the memlet it has;
  the first array is removed. The redirected edges come last in the edge list,
  as \<^verbatim>\<open>add_edge\<close> appends them.
\<close>

definition rename_segment :: "nat list \<Rightarrow> string \<Rightarrow> string \<Rightarrow> edge \<Rightarrow> edge" where
  "rename_segment path in_data out_data x =
     (if eid x \<in> set path \<and> data (edata x) = Some in_data
      then x\<lparr>edata := (edata x)\<lparr>data := Some out_data\<rparr>\<rparr> else x)"

definition forward_apply_spec :: "(state \<Rightarrow> edge \<Rightarrow> nat list) \<Rightarrow> state \<Rightarrow> node \<Rightarrow> node \<Rightarrow> string \<Rightarrow> string \<Rightarrow> state" where
  "forward_apply_spec memlet_path graph in_array out_array in_data out_data =
     (let paths = concat (map (memlet_path graph) (in_edges graph in_array));
          renamed = map (rename_segment paths in_data out_data) (edges graph);
          redirected = filter (\<lambda>x. dst x \<noteq> in_array) renamed
                       @ map (\<lambda>x. x\<lparr>dst := out_array\<rparr>) (filter (\<lambda>x. dst x = in_array) renamed)
      in remove_node (graph\<lparr>edges := redirected\<rparr>) in_array)"

text \<open>
  \<^verbatim>\<open>memlet_path\<close> is a parameter. The forward loop calls it on graphs it has already
  changed; what it changed are memlet names, and edges that end at a data node.
  The path of an edge that ends at a data node is traced back through the nodes
  before it, so it is assumed to depend only on the ends and connectors of the
  edge and on the edges that end at other than data nodes: the \<open>skeleton\<close>.
\<close>

definition endpoints :: "edge \<Rightarrow> nat \<times> node \<times> string option \<times> node \<times> string option" where
  "endpoints x = (eid x, src x, src_conn x, dst x, dst_conn x)"

definition skeleton :: "state \<Rightarrow> (nat \<times> node \<times> string option \<times> node \<times> string option) list" where
  "skeleton graph = map endpoints (filter (\<lambda>x. \<not> is_access (dst x)) (edges graph))"

subsection \<open>Example programs\<close>

text \<open>
  A chain \<open>tasklet \<rightarrow> B \<rightarrow> C \<rightarrow> D\<close> of three arrays of shape \<open>[3, 3]\<close>, \<open>B\<close> and \<open>C\<close>
  transient, every edge moving a whole array; the candidate binds \<open>B\<close> and \<open>C\<close>.
\<close>

definition whole_3x3 :: "subset_t option" where
  "whole_3x3 = Some (Range [(0, 2, 1), (0, 2, 1)])"

definition chain_tasklet :: node where
  "chain_tasklet = \<lparr>nid = 0, ntype = CodeNode\<rparr>"

definition chain_B :: node where
  "chain_B = \<lparr>nid = 1, ntype = AccessNode ''B''\<rparr>"

definition chain_C :: node where
  "chain_C = \<lparr>nid = 2, ntype = AccessNode ''C''\<rparr>"

definition chain_D :: node where
  "chain_D = \<lparr>nid = 3, ntype = AccessNode ''D''\<rparr>"

definition chain_graph :: state where
  "chain_graph =
     \<lparr>nodes = [chain_tasklet, chain_B, chain_C, chain_D],
      edges =
        [\<lparr>eid = 0, src = chain_tasklet, src_conn = Some ''out'', dst = chain_B, dst_conn = None,
          edata = \<lparr>data = Some ''B'', subset = whole_3x3, other_subset = None\<rparr>\<rparr>,
         \<lparr>eid = 1, src = chain_B, src_conn = None, dst = chain_C, dst_conn = None,
          edata = \<lparr>data = Some ''B'', subset = whole_3x3, other_subset = None\<rparr>\<rparr>,
         \<lparr>eid = 2, src = chain_C, src_conn = None, dst = chain_D, dst_conn = None,
          edata = \<lparr>data = Some ''C'', subset = whole_3x3, other_subset = None\<rparr>\<rparr>]\<rparr>"

definition chain_arrays :: "string \<rightharpoonup> data_desc" where
  "chain_arrays =
     [''B'' \<mapsto> \<lparr>oid = 0, dkind = Array, shape = [3, 3], storage = Default, transient = True\<rparr>,
      ''C'' \<mapsto> \<lparr>oid = 1, dkind = Array, shape = [3, 3], storage = Default, transient = True\<rparr>,
      ''D'' \<mapsto> \<lparr>oid = 2, dkind = Array, shape = [3, 3], storage = Default, transient = False\<rparr>]"

definition chain_sdfg :: sdfg where
  "chain_sdfg = \<lparr>states = [chain_graph], arrays = chain_arrays\<rparr>"

definition chain_world :: world where
  "chain_world = \<lparr>program = chain_sdfg, debugprint = True,
                   RedundantArray_arrays_removed = 0, RedundantSecondArray_arrays_removed = 0\<rparr>"

definition chain_candidate :: candidate where
  "chain_candidate = \<lparr>c_in_array = 1, c_out_array = 2\<rparr>"

definition chain_transformation :: transformation where
  "chain_transformation = \<lparr>state_id = 0, subgraph = chain_candidate\<rparr>"

text \<open>The chain after \<^verbatim>\<open>RedundantArray.apply\<close>, and after \<^verbatim>\<open>RedundantSecondArray.apply\<close>.\<close>

definition chain_graph_forward :: state where
  "chain_graph_forward =
     \<lparr>nodes = [chain_tasklet, chain_C, chain_D],
      edges =
        [\<lparr>eid = 2, src = chain_C, src_conn = None, dst = chain_D, dst_conn = None,
          edata = \<lparr>data = Some ''C'', subset = whole_3x3, other_subset = None\<rparr>\<rparr>,
         \<lparr>eid = 0, src = chain_tasklet, src_conn = Some ''out'', dst = chain_C, dst_conn = None,
          edata = \<lparr>data = Some ''C'', subset = whole_3x3, other_subset = None\<rparr>\<rparr>]\<rparr>"

definition chain_graph_backward :: state where
  "chain_graph_backward =
     \<lparr>nodes = [chain_tasklet, chain_B, chain_D],
      edges =
        [\<lparr>eid = 0, src = chain_tasklet, src_conn = Some ''out'', dst = chain_B, dst_conn = None,
          edata = \<lparr>data = Some ''B'', subset = whole_3x3, other_subset = None\<rparr>\<rparr>,
         \<lparr>eid = 2, src = chain_B, src_conn = None, dst = chain_D, dst_conn = None,
          edata = \<lparr>data = Some ''B'', subset = whole_3x3, other_subset = None\<rparr>\<rparr>]\<rparr>"

definition chain_world_forward :: world where
  "chain_world_forward =
     \<lparr>program = \<lparr>states = [chain_graph_forward], arrays = chain_arrays\<rparr>, debugprint = True,
      RedundantArray_arrays_removed = 1, RedundantSecondArray_arrays_removed = 0\<rparr>"

definition chain_world_backward :: world where
  "chain_world_backward =
     \<lparr>program = \<lparr>states = [chain_graph_backward], arrays = chain_arrays\<rparr>, debugprint = True,
      RedundantArray_arrays_removed = 0, RedundantSecondArray_arrays_removed = 1\<rparr>"

text \<open>
  The chain with a connecting edge that moves only the first two rows of \<open>B\<close>, and
  a program with a second state in which \<open>B\<close> and \<open>C\<close> occur once more.
\<close>

definition partial_chain_graph :: state where
  "partial_chain_graph =
     \<lparr>nodes = [chain_tasklet, chain_B, chain_C, chain_D],
      edges =
        [\<lparr>eid = 0, src = chain_tasklet, src_conn = Some ''out'', dst = chain_B, dst_conn = None,
          edata = \<lparr>data = Some ''B'', subset = whole_3x3, other_subset = None\<rparr>\<rparr>,
         \<lparr>eid = 1, src = chain_B, src_conn = None, dst = chain_C, dst_conn = None,
          edata = \<lparr>data = Some ''B'', subset = Some (Range [(0, 1, 1), (0, 2, 1)]),
                   other_subset = None\<rparr>\<rparr>,
         \<lparr>eid = 2, src = chain_C, src_conn = None, dst = chain_D, dst_conn = None,
          edata = \<lparr>data = Some ''C'', subset = whole_3x3, other_subset = None\<rparr>\<rparr>]\<rparr>"

definition partial_chain_sdfg :: sdfg where
  "partial_chain_sdfg = \<lparr>states = [partial_chain_graph], arrays = chain_arrays\<rparr>"

definition second_state :: state where
  "second_state =
     \<lparr>nodes = [\<lparr>nid = 4, ntype = AccessNode ''B''\<rparr>, \<lparr>nid = 5, ntype = AccessNode ''C''\<rparr>],
      edges = []\<rparr>"

definition two_state_sdfg :: sdfg where
  "two_state_sdfg = \<lparr>states = [chain_graph, second_state], arrays = chain_arrays\<rparr>"

text \<open>
  A partial copy, after \<^verbatim>\<open>test_out_2\<close>: \<open>A\<close> of shape \<open>[3, 3]\<close> is copied into the left
  half of the transient \<open>C\<close> of shape \<open>[3, 6]\<close>; \<open>C\<close> is copied to \<open>E\<close> by an edge whose
  memlet names \<open>E\<close> and has no \<^verbatim>\<open>other_subset\<close>, and the right half of \<open>C\<close> is read
  by a tasklet. The candidate binds \<open>A\<close> and \<open>C\<close>.
\<close>

definition copy_A :: node where
  "copy_A = \<lparr>nid = 0, ntype = AccessNode ''A''\<rparr>"

definition copy_C :: node where
  "copy_C = \<lparr>nid = 1, ntype = AccessNode ''C''\<rparr>"

definition copy_E :: node where
  "copy_E = \<lparr>nid = 2, ntype = AccessNode ''E''\<rparr>"

definition copy_tasklet :: node where
  "copy_tasklet = \<lparr>nid = 3, ntype = CodeNode\<rparr>"

definition copy_read_edge :: edge where
  "copy_read_edge =
     \<lparr>eid = 2, src = copy_C, src_conn = None, dst = copy_tasklet, dst_conn = Some ''_inp'',
      edata = \<lparr>data = Some ''C'', subset = Some (Range [(0, 2, 1), (3, 5, 1)]),
               other_subset = None\<rparr>\<rparr>"

definition copy_graph :: state where
  "copy_graph =
     \<lparr>nodes = [copy_A, copy_C, copy_E, copy_tasklet],
      edges =
        [\<lparr>eid = 0, src = copy_A, src_conn = None, dst = copy_C, dst_conn = None,
          edata = \<lparr>data = Some ''A'', subset = Some (Range [(0, 2, 1), (0, 2, 1)]),
                   other_subset = None\<rparr>\<rparr>,
         \<lparr>eid = 1, src = copy_C, src_conn = None, dst = copy_E, dst_conn = None,
          edata = \<lparr>data = Some ''E'', subset = Some (Range [(0, 2, 1), (0, 5, 1)]),
                   other_subset = None\<rparr>\<rparr>,
         copy_read_edge]\<rparr>"

definition copy_sdfg :: sdfg where
  "copy_sdfg =
     \<lparr>states = [copy_graph],
      arrays =
        [''A'' \<mapsto> \<lparr>oid = 0, dkind = Array, shape = [3, 3], storage = Default, transient = False\<rparr>,
         ''C'' \<mapsto> \<lparr>oid = 1, dkind = Array, shape = [3, 6], storage = Default, transient = True\<rparr>,
         ''E'' \<mapsto> \<lparr>oid = 2, dkind = Array, shape = [3, 6], storage = Default, transient = False\<rparr>]\<rparr>"

definition copy_candidate :: candidate where
  "copy_candidate = \<lparr>c_in_array = 0, c_out_array = 1\<rparr>"

text \<open>
  A window copy in one dimension, after the comment in \<^verbatim>\<open>RedundantSecondArray.apply\<close>:
  the region \<open>[a, a+b)\<close> of \<open>A\<close> is copied into the region \<open>[c, c+b)\<close> of the transient
  \<open>C\<close>, with \<open>a = 2\<close>, \<open>b = 4\<close>, \<open>c = 5\<close>, and a tasklet reads \<open>C\<close> at \<open>c + d\<close> with
  \<open>d = 1\<close>. The candidate binds \<open>A\<close> and \<open>C\<close>.
\<close>

definition win_A :: node where
  "win_A = \<lparr>nid = 0, ntype = AccessNode ''A''\<rparr>"

definition win_C :: node where
  "win_C = \<lparr>nid = 1, ntype = AccessNode ''C''\<rparr>"

definition win_tasklet :: node where
  "win_tasklet = \<lparr>nid = 2, ntype = CodeNode\<rparr>"

definition win_read_edge :: edge where
  "win_read_edge =
     \<lparr>eid = 1, src = win_C, src_conn = None, dst = win_tasklet, dst_conn = Some ''x'',
      edata = \<lparr>data = Some ''C'', subset = Some (Indices [5 + 1]), other_subset = None\<rparr>\<rparr>"

definition win_graph :: state where
  "win_graph =
     \<lparr>nodes = [win_A, win_C, win_tasklet],
      edges =
        [\<lparr>eid = 0, src = win_A, src_conn = None, dst = win_C, dst_conn = None,
          edata = \<lparr>data = Some ''A'', subset = Some (Range [(2, 2 + 4 - 1, 1)]),
                   other_subset = Some (Range [(5, 5 + 4 - 1, 1)])\<rparr>\<rparr>,
         win_read_edge]\<rparr>"

definition win_world :: world where
  "win_world =
     \<lparr>program =
        \<lparr>states = [win_graph],
         arrays =
           [''A'' \<mapsto> \<lparr>oid = 0, dkind = Array, shape = [10], storage = Default, transient = False\<rparr>,
            ''C'' \<mapsto> \<lparr>oid = 1, dkind = Array, shape = [10], storage = Default, transient = True\<rparr>]\<rparr>,
      debugprint = False,
      RedundantArray_arrays_removed = 0, RedundantSecondArray_arrays_removed = 0\<rparr>"

definition win_transformation :: transformation where
  "win_transformation = \<lparr>state_id = 0, subgraph = \<lparr>c_in_array = 0, c_out_array = 1\<rparr>\<rparr>"

definition win_graph_after :: state where
  "win_graph_after =
     \<lparr>nodes = [win_A, win_tasklet],
      edges =
        [\<lparr>eid = 1, src = win_A, src_conn = None, dst = win_tasklet, dst_conn = Some ''x'',
          edata = \<lparr>data = Some ''A'', subset = Some (Indices [2 + 1]), other_subset = None\<rparr>\<rparr>]\<rparr>"

definition win_world_after :: world where
  "win_world_after = win_world\<lparr>program := (program win_world)\<lparr>states := [win_graph_after]\<rparr>\<rparr>"

text \<open>
  The forward rule across a scope: a tasklet writes \<open>B\<close> through a map exit, and \<open>B\<close> is
  copied to \<open>C\<close>. The path of the edge from the map exit to \<open>B\<close> (edge 1) starts with
  the edge from the tasklet to the map exit (edge 0); \<open>scoped_path\<close> is
  \<^verbatim>\<open>memlet_path\<close> on this graph. The candidate binds \<open>B\<close> and \<open>C\<close>.
\<close>

definition scoped_path :: "state \<Rightarrow> edge \<Rightarrow> nat list" where
  "scoped_path graph e = (if eid e = 1 then [0, 1] else [eid e])"

definition scoped_tasklet :: node where
  "scoped_tasklet = \<lparr>nid = 0, ntype = CodeNode\<rparr>"

definition scoped_exit :: node where
  "scoped_exit = \<lparr>nid = 1, ntype = CodeNode\<rparr>"

definition scoped_B :: node where
  "scoped_B = \<lparr>nid = 2, ntype = AccessNode ''B''\<rparr>"

definition scoped_C :: node where
  "scoped_C = \<lparr>nid = 3, ntype = AccessNode ''C''\<rparr>"

definition scoped_graph :: state where
  "scoped_graph =
     \<lparr>nodes = [scoped_tasklet, scoped_exit, scoped_B, scoped_C],
      edges =
        [\<lparr>eid = 0, src = scoped_tasklet, src_conn = Some ''out'', dst = scoped_exit,
          dst_conn = Some ''IN_B'',
          edata = \<lparr>data = Some ''B'', subset = Some (Indices [0, 0]), other_subset = None\<rparr>\<rparr>,
         \<lparr>eid = 1, src = scoped_exit, src_conn = Some ''OUT_B'', dst = scoped_B, dst_conn = None,
          edata = \<lparr>data = Some ''B'', subset = whole_3x3, other_subset = None\<rparr>\<rparr>,
         \<lparr>eid = 2, src = scoped_B, src_conn = None, dst = scoped_C, dst_conn = None,
          edata = \<lparr>data = Some ''B'', subset = whole_3x3, other_subset = None\<rparr>\<rparr>]\<rparr>"

definition scoped_graph_forward :: state where
  "scoped_graph_forward =
     \<lparr>nodes = [scoped_tasklet, scoped_exit, scoped_C],
      edges =
        [\<lparr>eid = 0, src = scoped_tasklet, src_conn = Some ''out'', dst = scoped_exit,
          dst_conn = Some ''IN_B'',
          edata = \<lparr>data = Some ''C'', subset = Some (Indices [0, 0]), other_subset = None\<rparr>\<rparr>,
         \<lparr>eid = 1, src = scoped_exit, src_conn = Some ''OUT_B'', dst = scoped_C, dst_conn = None,
          edata = \<lparr>data = Some ''C'', subset = whole_3x3, other_subset = None\<rparr>\<rparr>]\<rparr>"

definition scoped_world :: world where
  "scoped_world =
     \<lparr>program = \<lparr>states = [scoped_graph], arrays = chain_arrays\<rparr>, debugprint = False,
      RedundantArray_arrays_removed = 0, RedundantSecondArray_arrays_removed = 0\<rparr>"

definition scoped_world_forward :: world where
  "scoped_world_forward =
     \<lparr>program = \<lparr>states = [scoped_graph_forward], arrays = chain_arrays\<rparr>, debugprint = False,
      RedundantArray_arrays_removed = 0, RedundantSecondArray_arrays_removed = 0\<rparr>"

definition scoped_transformation :: transformation where
  "scoped_transformation = \<lparr>state_id = 0, subgraph = \<lparr>c_in_array = 2, c_out_array = 3\<rparr>\<rparr>"

section \<open>Properties\<close>

subsection \<open>Exceptions and loops\<close>

lemma bind_Inl [simp]: "bind (Inl e) f = Inl e"
  by (simp add: bind_def)

lemma bind_Inr [simp]: "bind (Inr x) f = f x"
  by (simp add: bind_def)

lemma bind_eq_Inr: "bind m f = Inr y \<longleftrightarrow> (\<exists>x. m = Inr x \<and> f x = Inr y)"
  by (cases m) simp_all

lemma bind_eq_Inl: "bind m f = Inl e \<longleftrightarrow> m = Inl e \<or> (\<exists>x. m = Inr x \<and> f x = Inl e)"
  by (cases m) simp_all

lemma list_get_eq_Inr: "list_get xs i = Inr x \<longleftrightarrow> i < length xs \<and> xs ! i = x"
  by (auto simp: list_get_def)

lemma list_get_0_Cons [simp]: "list_get (x # xs) 0 = Inr x"
  by (simp add: list_get_def)

lemma list_get_Nil [simp]: "list_get [] i = Inl IndexError"
  by (simp add: list_get_def)

subsection \<open>The effect of apply outside the graph\<close>

lemma RedundantArray_apply_frame:
  assumes "RedundantArray_apply memlet_path t w = Inr w'"
  shows "arrays (program w') = arrays (program w)"
    and "debugprint w' = debugprint w"
    and "RedundantSecondArray_arrays_removed w' = RedundantSecondArray_arrays_removed w"
    and "RedundantArray_arrays_removed w' =
           RedundantArray_arrays_removed w + (if debugprint w then 1 else 0)"
  using assms unfolding RedundantArray_apply_def
  by (cases "debugprint w"; auto simp: bind_eq_Inr Let_def set_state_def)+

lemma RedundantSecondArray_apply_frame:
  assumes "RedundantSecondArray_apply memlet_tree t w = Inr w'"
  shows "arrays (program w') = arrays (program w)"
    and "debugprint w' = debugprint w"
    and "RedundantArray_arrays_removed w' = RedundantArray_arrays_removed w"
    and "RedundantSecondArray_arrays_removed w' =
           RedundantSecondArray_arrays_removed w + (if debugprint w then 1 else 0)"
  using assms unfolding RedundantSecondArray_apply_def
  by (cases "debugprint w"; auto simp: bind_eq_Inr Let_def set_state_def)+

lemma chain_forward_apply:
  "RedundantArray_apply direct_path chain_transformation chain_world = Inr chain_world_forward"
  by (simp add: RedundantArray_apply_def chain_transformation_def chain_world_def chain_sdfg_def
      chain_graph_def chain_candidate_def chain_graph_forward_def in_edges_def list_get_def
      redirect_in_edge_def direct_path_def current_def modify_edge_def rename_memlet_def
      node_data_def chain_B_def chain_C_def chain_D_def chain_tasklet_def add_edge_def
      remove_edge_def remove_node_def set_state_def chain_world_forward_def)

lemma chain_backward_apply:
  "RedundantSecondArray_apply direct_path chain_transformation chain_world = Inr chain_world_backward"
  by (simp add: RedundantSecondArray_apply_def chain_transformation_def chain_world_def
      chain_sdfg_def chain_graph_def chain_candidate_def chain_graph_backward_def out_edges_def
      edges_between_def connecting_subsets_def synthesize_def offset_def whole_3x3_def list_get_def
      redirect_out_edge_def direct_path_def current_def modify_edge_def migrate_memlet_def
      migrate_subset_def compose_def node_data_def chain_B_def chain_C_def chain_D_def
      chain_tasklet_def add_edge_def remove_edge_def remove_node_def set_state_def Let_def
      chain_world_backward_def)

text \<open>
  C8: neither \<^verbatim>\<open>apply\<close> deletes a container descriptor: when \<^verbatim>\<open>apply\<close> returns, the
  container registry of the program is the registry it started from, for every
  container name, the removed node's included.
\<close>

theorem apply_keeps_registry:
  "(RedundantArray_apply memlet_path t w = Inr w1 \<longrightarrow> arrays (program w1) = arrays (program w))
   \<and> (RedundantSecondArray_apply memlet_tree t w = Inr w2 \<longrightarrow>
        arrays (program w2) = arrays (program w))"
  by (blast dest: RedundantArray_apply_frame(1) RedundantSecondArray_apply_frame(1))

theorem apply_keeps_registry_witness:
  "RedundantArray_apply direct_path chain_transformation chain_world = Inr chain_world_forward
   \<and> arrays (program chain_world_forward) = arrays (program chain_world)
   \<and> RedundantSecondArray_apply direct_path chain_transformation chain_world
       = Inr chain_world_backward
   \<and> arrays (program chain_world_backward) = arrays (program chain_world)"
  using apply_keeps_registry [of direct_path chain_transformation chain_world chain_world_forward
      direct_path chain_world_backward]
    chain_forward_apply chain_backward_apply
  by blast

text \<open>
  C9, as the claim states it, fails: with the configuration flag \<^verbatim>\<open>debugprint\<close> set,
  \<^verbatim>\<open>RedundantArray.apply\<close> on the chain increments the class attribute
  \<^verbatim>\<open>RedundantArray._arrays_removed\<close> from 0 to 1.
\<close>

theorem apply_counts_removals_counterexample:
  "debugprint chain_world
   \<and> RedundantArray_arrays_removed chain_world = 0
   \<and> (\<exists>w'. RedundantArray_apply direct_path chain_transformation chain_world = Inr w'
            \<and> RedundantArray_arrays_removed w' = 1)"
  by (simp add: chain_forward_apply) (simp add: chain_world_def chain_world_forward_def)

text \<open>
  C9, amended: outside the graph, \<^verbatim>\<open>apply\<close> changes the removal counter of its own
  class and nothing else, and the counter only when \<^verbatim>\<open>debugprint\<close> is set: it is
  then incremented by one. The registry, the flag and the other class's counter
  are unchanged.
\<close>

theorem apply_counter_effect:
  "(RedundantArray_apply memlet_path t w = Inr w1 \<longrightarrow>
      RedundantArray_arrays_removed w1
        = RedundantArray_arrays_removed w + (if debugprint w then 1 else 0)
      \<and> RedundantSecondArray_arrays_removed w1 = RedundantSecondArray_arrays_removed w
      \<and> debugprint w1 = debugprint w \<and> arrays (program w1) = arrays (program w))
   \<and> (RedundantSecondArray_apply memlet_tree t w = Inr w2 \<longrightarrow>
      RedundantSecondArray_arrays_removed w2
        = RedundantSecondArray_arrays_removed w + (if debugprint w then 1 else 0)
      \<and> RedundantArray_arrays_removed w2 = RedundantArray_arrays_removed w
      \<and> debugprint w2 = debugprint w \<and> arrays (program w2) = arrays (program w))"
  using RedundantArray_apply_frame [of memlet_path t w w1]
    RedundantSecondArray_apply_frame [of memlet_tree t w w2]
  by blast

theorem apply_counter_effect_witness:
  "RedundantArray_apply direct_path chain_transformation chain_world = Inr chain_world_forward
   \<and> RedundantArray_arrays_removed chain_world_forward
       = RedundantArray_arrays_removed chain_world + (if debugprint chain_world then 1 else 0)
   \<and> RedundantSecondArray_apply direct_path chain_transformation chain_world
       = Inr chain_world_backward
   \<and> RedundantSecondArray_arrays_removed chain_world_backward
       = RedundantSecondArray_arrays_removed chain_world
         + (if debugprint chain_world then 1 else 0)"
  using apply_counter_effect [of direct_path chain_transformation chain_world chain_world_forward
      direct_path chain_world_backward]
    chain_forward_apply chain_backward_apply
  by blast

subsection \<open>Evaluating the examples\<close>

lemmas chain_defs = chain_graph_def chain_sdfg_def chain_arrays_def chain_candidate_def
  chain_tasklet_def chain_B_def chain_C_def chain_D_def whole_3x3_def

lemmas check_defs = RedundantArray_can_be_applied_def RedundantSecondArray_can_be_applied_def
  list_get_def desc_def node_data_def is_access_def out_degree_def in_degree_def out_edges_def
  in_edges_def edges_between_def occurrences_def occurrences_in_def connecting_subsets_def
  synthesize_def offset_def num_elements_def out_edge_subset_def covers_arg_def covers_def Let_def

lemma chain_forward_applicable:
  "RedundantArray_can_be_applied chain_graph chain_candidate chain_sdfg True = Inr True"
  by (simp add: check_defs chain_defs)

lemma partial_chain_nonstrict:
  "RedundantArray_can_be_applied partial_chain_graph chain_candidate partial_chain_sdfg False = Inr True"
  by (simp add: check_defs chain_defs partial_chain_graph_def partial_chain_sdfg_def)

subsection \<open>The first edge between the two nodes\<close>

lemma for_each_not_error:
  assumes "\<And>s x. body s x \<noteq> Inl err"
  shows "for_each body xs s \<noteq> Inl err"
  using assms by (induction xs arbitrary: s) (auto simp: bind_eq_Inl)

lemma node_data_not_IndexError: "node_data n \<noteq> Inl IndexError"
  by (simp add: node_data_def split: node_type.splits)

lemma desc_not_IndexError: "desc n sd \<noteq> Inl IndexError"
  by (auto simp: desc_def bind_eq_Inl node_data_not_IndexError split: option.splits)

lemma occurrences_not_IndexError: "occurrences sd d \<noteq> Inl IndexError"
  unfolding occurrences_def occurrences_in_def
  by (intro for_each_not_error) (auto simp: bind_eq_Inl desc_not_IndexError)

lemma offset_not_IndexError: "offset r q neg \<noteq> Inl IndexError"
  by (simp add: offset_def)

lemma synthesize_not_IndexError: "synthesize x \<noteq> Inl IndexError"
  by (simp add: synthesize_def offset_not_IndexError split: option.splits)

lemma connecting_subsets_not_IndexError:
  assumes "edges_between graph u v \<noteq> []"
  shows "connecting_subsets graph u v \<noteq> Inl IndexError"
proof -
  from assms obtain e es where "edges_between graph u v = e # es"
    by (cases "edges_between graph u v") auto
  then show ?thesis
    by (auto simp: connecting_subsets_def bind_eq_Inl Let_def node_data_not_IndexError
        synthesize_not_IndexError split: option.splits)
qed

lemma check_out_edges_not_IndexError: "check_out_edges v out_subset es \<noteq> Inl IndexError"
  by (induction es)
    (auto simp: bind_eq_Inl node_data_not_IndexError out_edge_subset_def covers_arg_def
      synthesize_not_IndexError split: option.splits if_splits)

text \<open>
  C10: both applicability checks take element 0 of \<^verbatim>\<open>edges_between(in_array, out_array)\<close>
  without a guard. When the candidate binds two nodes of the graph that are
  connected by at least one edge, the index is in range (the read returns the
  first such edge), and neither check raises \<^verbatim>\<open>IndexError\<close>, in strict mode or not.
\<close>

theorem first_edge_in_range:
  assumes "c_in_array cand < length (nodes graph)"
    and "c_out_array cand < length (nodes graph)"
    and "edges_between graph (nodes graph ! c_in_array cand) (nodes graph ! c_out_array cand) \<noteq> []"
  shows "list_get (edges_between graph (nodes graph ! c_in_array cand)
                     (nodes graph ! c_out_array cand)) 0
           = Inr (hd (edges_between graph (nodes graph ! c_in_array cand)
                        (nodes graph ! c_out_array cand)))
         \<and> RedundantArray_can_be_applied graph cand sd strict \<noteq> Inl IndexError
         \<and> RedundantSecondArray_can_be_applied graph cand sd strict \<noteq> Inl IndexError"
proof (intro conjI)
  let ?es = "edges_between graph (nodes graph ! c_in_array cand) (nodes graph ! c_out_array cand)"
  from assms(3) obtain e es where es: "?es = e # es" by (cases ?es) auto
  show "list_get ?es 0 = Inr (hd ?es)" by (simp add: es)
  show "RedundantArray_can_be_applied graph cand sd strict \<noteq> Inl IndexError"
    using assms(1,2) es
    by (auto simp: RedundantArray_can_be_applied_def list_get_def bind_eq_Inl desc_not_IndexError
        occurrences_not_IndexError split: option.splits)
  show "RedundantSecondArray_can_be_applied graph cand sd strict \<noteq> Inl IndexError"
    using assms(1,2) connecting_subsets_not_IndexError [OF assms(3)]
    by (auto simp: RedundantSecondArray_can_be_applied_def list_get_def bind_eq_Inl
        desc_not_IndexError occurrences_not_IndexError check_out_edges_not_IndexError
        split: prod.splits)
qed

theorem first_edge_in_range_witness:
  "c_in_array chain_candidate < length (nodes chain_graph)
   \<and> c_out_array chain_candidate < length (nodes chain_graph)
   \<and> edges_between chain_graph (nodes chain_graph ! c_in_array chain_candidate)
        (nodes chain_graph ! c_out_array chain_candidate) \<noteq> []
   \<and> RedundantArray_can_be_applied chain_graph chain_candidate chain_sdfg True \<noteq> Inl IndexError
   \<and> RedundantSecondArray_can_be_applied chain_graph chain_candidate chain_sdfg True
        \<noteq> Inl IndexError"
proof -
  have 1: "c_in_array chain_candidate < length (nodes chain_graph)"
    by (simp add: chain_graph_def chain_candidate_def)
  have 2: "c_out_array chain_candidate < length (nodes chain_graph)"
    by (simp add: chain_graph_def chain_candidate_def)
  have 3: "edges_between chain_graph (nodes chain_graph ! c_in_array chain_candidate)
        (nodes chain_graph ! c_out_array chain_candidate) \<noteq> []"
    by (simp add: check_defs chain_defs)
  from first_edge_in_range [OF 1 2 3, of chain_sdfg True] 1 2 3 show ?thesis by blast
qed


subsection \<open>Strict mode of the forward rule\<close>

lemma zip_differs:
  "length xs = length ys \<Longrightarrow> xs \<noteq> ys \<Longrightarrow> list_ex (\<lambda>(m, a). m \<noteq> a) (zip xs ys)"
  by (induction xs ys rule: list_induct2) auto

text \<open>
  C4: in strict mode the forward rule refuses a candidate whose connecting edge
  does not cover the source container, whatever the other preconditions say. If
  the check without strict mode returns a verdict \<open>b\<close> (true when every other
  precondition holds), and the region of the first edge between the two nodes has
  the source container's rank but not its per-dimension sizes, then the check in
  strict mode returns false.
\<close>

theorem forward_strict_gating:
  assumes "RedundantArray_can_be_applied graph cand sd False = Inr b"
    and "list_get (nodes graph) (c_in_array cand) = Inr in_array"
    and "list_get (nodes graph) (c_out_array cand) = Inr out_array"
    and "desc in_array sd = Inr in_desc"
    and "edges_between graph in_array out_array = e # es"
    and "subset (edata e) = Some s"
    and "length (subset_size s) = length (shape in_desc)"
    and "subset_size s \<noteq> shape in_desc"
  shows "RedundantArray_can_be_applied graph cand sd True = Inr False"
  using assms zip_differs [OF assms(7,8)]
  by (auto simp: RedundantArray_can_be_applied_def bind_eq_Inr split: if_splits)

theorem forward_strict_gating_witness:
  "RedundantArray_can_be_applied partial_chain_graph chain_candidate partial_chain_sdfg False
     = Inr True
   \<and> subset_size (Range [(0, 1, 1), (0, 2, 1)]) = [2, 3]
   \<and> RedundantArray_can_be_applied partial_chain_graph chain_candidate partial_chain_sdfg True
     = Inr False"
proof -
  have 1: "list_get (nodes partial_chain_graph) (c_in_array chain_candidate) = Inr chain_B"
    by (simp add: list_get_def partial_chain_graph_def chain_candidate_def)
  have 2: "list_get (nodes partial_chain_graph) (c_out_array chain_candidate) = Inr chain_C"
    by (simp add: list_get_def partial_chain_graph_def chain_candidate_def)
  have 3: "desc chain_B partial_chain_sdfg
             = Inr \<lparr>oid = 0, dkind = Array, shape = [3, 3], storage = Default, transient = True\<rparr>"
    by (simp add: check_defs chain_defs partial_chain_sdfg_def)
  have 4: "edges_between partial_chain_graph chain_B chain_C
            = [\<lparr>eid = 1, src = chain_B, src_conn = None, dst = chain_C, dst_conn = None,
                edata = \<lparr>data = Some ''B'', subset = Some (Range [(0, 1, 1), (0, 2, 1)]),
                   other_subset = None\<rparr>\<rparr>]"
    by (simp add: check_defs partial_chain_graph_def chain_tasklet_def chain_B_def chain_C_def
        chain_D_def)
  have 5: "subset_size (Range [(0, 1, 1), (0, 2, 1)]) = [2, 3]"
    by simp
  have "RedundantArray_can_be_applied partial_chain_graph chain_candidate partial_chain_sdfg True
          = Inr False"
    by (rule forward_strict_gating [OF partial_chain_nonstrict 1 2 3 4,
          where s = "Range [(0, 1, 1), (0, 2, 1)]"]) (simp_all add: 5)
  then show ?thesis by (simp add: partial_chain_nonstrict)
qed

subsection \<open>Occurrences in the whole program\<close>

lemma occurrences_in_registered:
  assumes "\<forall>n\<in>set ns. is_access n \<longrightarrow> (\<exists>x. desc n sd = Inr x)"
  shows "occurrences_in sd d ns acc
           = Inr (acc @ filter (\<lambda>n. is_access n \<and> desc n sd = Inr d) ns)"
  using assms unfolding occurrences_in_def
  by (induction ns arbitrary: acc) auto

lemma occurrences_states_registered:
  assumes "\<forall>st\<in>set sts. \<forall>n\<in>set (nodes st). is_access n \<longrightarrow> (\<exists>x. desc n sd = Inr x)"
  shows "for_each (\<lambda>acc st. occurrences_in sd d (nodes st) acc) sts acc
           = Inr (acc @ filter (\<lambda>n. is_access n \<and> desc n sd = Inr d) (concat (map nodes sts)))"
  using assms
  by (induction sts arbitrary: acc) (simp_all add: occurrences_in_registered)

lemma occurrences_registered:
  assumes "\<forall>st\<in>set (states sd). \<forall>n\<in>set (nodes st). is_access n \<longrightarrow> (\<exists>x. desc n sd = Inr x)"
  shows "occurrences sd d
           = Inr (filter (\<lambda>n. is_access n \<and> desc n sd = Inr d) (concat (map nodes (states sd))))"
  using occurrences_states_registered [OF assms, of d "[]"] by (simp add: occurrences_def)

lemma length_filter_mono:
  "(\<And>x. x \<in> set xs \<Longrightarrow> P x \<Longrightarrow> Q x) \<Longrightarrow> length (filter P xs) \<le> length (filter Q xs)"
  by (induction xs) auto

lemma same_container_same_desc:
  assumes "desc m sd = Inr d" and "ntype n = ntype m"
  shows "is_access n \<and> desc n sd = Inr d"
  using assms
  by (auto simp: desc_def node_data_def is_access_def bind_eq_Inr split: node_type.splits)

lemma occurrences_count:
  assumes "\<forall>st\<in>set (states sd). \<forall>n\<in>set (nodes st). is_access n \<longrightarrow> (\<exists>x. desc n sd = Inr x)"
    and "desc m sd = Inr d"
    and "1 < length (filter (\<lambda>n. ntype n = ntype m) (concat (map nodes (states sd))))"
  obtains occ where "occurrences sd d = Inr occ" and "1 < length occ"
proof -
  have "length (filter (\<lambda>n. ntype n = ntype m) (concat (map nodes (states sd))))
          \<le> length (filter (\<lambda>n. is_access n \<and> desc n sd = Inr d) (concat (map nodes (states sd))))"
    by (rule length_filter_mono) (use same_container_same_desc [OF assms(2)] in blast)
  with assms(3) that occurrences_registered [OF assms(1), of d] show thesis by simp
qed

text \<open>
  C5: a second data node of the container anywhere in the program disables the
  rule. For a candidate that binds two registered data nodes, in a program whose
  data nodes all name registered containers: if more than one data node of the
  program names the source container, the forward check returns false; if more
  than one names the destination container, the backward check returns false.
\<close>

theorem occurrence_gating:
  assumes "list_get (nodes graph) (c_in_array cand) = Inr in_array"
    and "list_get (nodes graph) (c_out_array cand) = Inr out_array"
    and "desc in_array sd = Inr in_desc"
    and "desc out_array sd = Inr out_desc"
    and "\<forall>st\<in>set (states sd). \<forall>n\<in>set (nodes st). is_access n \<longrightarrow> (\<exists>x. desc n sd = Inr x)"
  shows "(1 < length (filter (\<lambda>n. ntype n = ntype in_array) (concat (map nodes (states sd))))
           \<longrightarrow> RedundantArray_can_be_applied graph cand sd strict = Inr False)
       \<and> (1 < length (filter (\<lambda>n. ntype n = ntype out_array) (concat (map nodes (states sd))))
           \<longrightarrow> RedundantSecondArray_can_be_applied graph cand sd strict = Inr False)"
proof (intro conjI impI)
  assume "1 < length (filter (\<lambda>n. ntype n = ntype in_array) (concat (map nodes (states sd))))"
  then obtain occ where "occurrences sd in_desc = Inr occ" "1 < length occ"
    using occurrences_count [OF assms(5) assms(3)] by blast
  then show "RedundantArray_can_be_applied graph cand sd strict = Inr False"
    using assms(1-4) by (simp add: RedundantArray_can_be_applied_def)
next
  assume "1 < length (filter (\<lambda>n. ntype n = ntype out_array) (concat (map nodes (states sd))))"
  then obtain occ where "occurrences sd out_desc = Inr occ" "1 < length occ"
    using occurrences_count [OF assms(5) assms(4)] by blast
  then show "RedundantSecondArray_can_be_applied graph cand sd strict = Inr False"
    using assms(1-4) by (simp add: RedundantSecondArray_can_be_applied_def)
qed

theorem occurrence_gating_witness:
  "1 < length (filter (\<lambda>n. ntype n = ntype chain_B) (concat (map nodes (states two_state_sdfg))))
   \<and> RedundantArray_can_be_applied chain_graph chain_candidate two_state_sdfg True = Inr False
   \<and> 1 < length (filter (\<lambda>n. ntype n = ntype chain_C) (concat (map nodes (states two_state_sdfg))))
   \<and> RedundantSecondArray_can_be_applied chain_graph chain_candidate two_state_sdfg True = Inr False"
proof -
  have 1: "list_get (nodes chain_graph) (c_in_array chain_candidate) = Inr chain_B"
    by (simp add: list_get_def chain_graph_def chain_candidate_def)
  have 2: "list_get (nodes chain_graph) (c_out_array chain_candidate) = Inr chain_C"
    by (simp add: list_get_def chain_graph_def chain_candidate_def)
  have 3: "desc chain_B two_state_sdfg = Inr \<lparr>oid = 0, dkind = Array, shape = [3, 3], storage = Default, transient = True\<rparr>"
    by (simp add: check_defs chain_defs two_state_sdfg_def)
  have 4: "desc chain_C two_state_sdfg = Inr \<lparr>oid = 1, dkind = Array, shape = [3, 3], storage = Default, transient = True\<rparr>"
    by (simp add: check_defs chain_defs two_state_sdfg_def)
  have 5: "\<forall>st\<in>set (states two_state_sdfg). \<forall>n\<in>set (nodes st).
             is_access n \<longrightarrow> (\<exists>x. desc n two_state_sdfg = Inr x)"
    by (simp add: check_defs chain_defs two_state_sdfg_def second_state_def)
  have 6: "1 < length (filter (\<lambda>n. ntype n = ntype chain_B) (concat (map nodes (states two_state_sdfg))))"
    by (simp add: chain_defs two_state_sdfg_def second_state_def)
  have 7: "1 < length (filter (\<lambda>n. ntype n = ntype chain_C) (concat (map nodes (states two_state_sdfg))))"
    by (simp add: chain_defs two_state_sdfg_def second_state_def)
  from occurrence_gating [OF 1 2 3 4 5, of True] 6 7 show ?thesis by blast
qed

subsection \<open>Coverage check of the backward rule\<close>

lemmas copy_defs = copy_graph_def copy_sdfg_def copy_candidate_def copy_A_def copy_C_def
  copy_E_def copy_tasklet_def copy_read_edge_def

lemma check_out_edges_True:
  assumes "check_out_edges out_array out_subset es = Inr True"
    and "node_data out_array = Inr out_data"
    and "e \<in> set es"
  shows "\<exists>s. out_edge_subset out_data e = Inr (Some s) \<and> covers out_subset s"
  using assms
  by (induction es)
    (auto simp: bind_eq_Inr covers_arg_def split: if_splits option.splits)

lemma check_out_edges_False:
  assumes "node_data out_array = Inr out_data"
    and "\<forall>e\<in>set es. \<exists>s. out_edge_subset out_data e = Inr (Some s)"
    and "\<exists>e\<in>set es. \<exists>s. out_edge_subset out_data e = Inr (Some s) \<and> \<not> covers out_subset s"
  shows "check_out_edges out_array out_subset es = Inr False"
  using assms
proof (induction es)
  case Nil
  then show ?case by simp
next
  case (Cons a es)
  from Cons.prems(2) obtain s where s: "out_edge_subset out_data a = Inr (Some s)" by auto
  show ?case
  proof (cases "covers out_subset s")
    case False
    with s Cons.prems(1) show ?thesis by (simp add: covers_arg_def)
  next
    case True
    with s Cons.prems(3) have "\<exists>e\<in>set es. \<exists>s. out_edge_subset out_data e = Inr (Some s)
        \<and> \<not> covers out_subset s"
      by auto
    with Cons.IH Cons.prems(1,2) have "check_out_edges out_array out_subset es = Inr False"
      by simp
    with s True Cons.prems(1) show ?thesis by (simp add: covers_arg_def)
  qed
qed

lemma backward_uncovered_never_applicable:
  assumes "list_get (nodes graph) (c_in_array cand) = Inr in_array"
    and "list_get (nodes graph) (c_out_array cand) = Inr out_array"
    and "desc out_array sd = Inr out_desc"
    and "node_data out_array = Inr out_data"
    and "connecting_subsets graph in_array out_array = Inr (inp_subset, out_subset)"
    and "num_elements inp_subset \<noteq> prod_list (shape out_desc)"
    and "e \<in> set (out_edges graph out_array)"
    and "out_edge_subset out_data e = Inr (Some s)"
    and "\<not> covers out_subset s"
  shows "RedundantSecondArray_can_be_applied graph cand sd strict \<noteq> Inr True"
  using assms check_out_edges_True [of out_array out_subset "out_edges graph out_array" out_data e]
  by (auto simp: RedundantSecondArray_can_be_applied_def bind_eq_Inr split: if_splits)

lemma backward_coverage_rejection:
  assumes "list_get (nodes graph) (c_in_array cand) = Inr in_array"
    and "list_get (nodes graph) (c_out_array cand) = Inr out_array"
    and "desc in_array sd = Inr in_desc"
    and "desc out_array sd = Inr out_desc"
    and "occurrences sd out_desc = Inr occ"
    and "node_data out_array = Inr out_data"
    and "connecting_subsets graph in_array out_array = Inr (inp_subset, out_subset)"
    and "num_elements inp_subset \<noteq> prod_list (shape out_desc)"
    and "\<forall>e\<in>set (out_edges graph out_array). \<exists>s. out_edge_subset out_data e = Inr (Some s)"
    and "\<exists>e\<in>set (out_edges graph out_array).
           \<exists>s. out_edge_subset out_data e = Inr (Some s) \<and> \<not> covers out_subset s"
  shows "RedundantSecondArray_can_be_applied graph cand sd strict = Inr False"
  using assms check_out_edges_False [OF assms(6,9,10)]
  by (simp add: RedundantSecondArray_can_be_applied_def)

text \<open>
  C3 says that no path of either applicability check raises. The backward check
  does: on the partial copy it reaches the edge from \<open>C\<close> to \<open>E\<close>, whose memlet names
  another container and has no \<^verbatim>\<open>other_subset\<close>; the branch that should synthesize
  the missing region copies \<^verbatim>\<open>e.data.other_subset\<close>, which is \<^verbatim>\<open>None\<close>, and calls
  \<^verbatim>\<open>offset\<close> on it.
\<close>

theorem backward_check_raises:
  "RedundantSecondArray_can_be_applied copy_graph copy_candidate copy_sdfg strict
     = Inl AttributeError"
  by (simp add: check_defs copy_defs)

text \<open>
  C2 says that the backward check returns false whenever the size shortcut fails
  and some outgoing edge of the second array is not covered. On the partial copy
  the shortcut fails (9 elements against 18) and the tasklet's edge reads a region
  that is not covered, yet the check does not return false: it raises at the edge
  from \<open>C\<close> to \<open>E\<close>, which it examines before. Where every outgoing edge has a region
  the claim holds (\<open>backward_coverage_rejection\<close>), and the check never returns true
  (\<open>backward_uncovered_never_applicable\<close>).
\<close>

theorem backward_coverage_rejection_fails:
  "connecting_subsets copy_graph copy_A copy_C
     = Inr (Range [(0, 2, 1), (0, 2, 1)], Range [(0, 2, 1), (0, 2, 1)])
   \<and> num_elements (Range [(0, 2, 1), (0, 2, 1)]) \<noteq> prod_list [3, 6]
   \<and> copy_read_edge \<in> set (out_edges copy_graph copy_C)
   \<and> out_edge_subset ''C'' copy_read_edge = Inr (Some (Range [(0, 2, 1), (3, 5, 1)]))
   \<and> \<not> covers (Range [(0, 2, 1), (0, 2, 1)]) (Range [(0, 2, 1), (3, 5, 1)])
   \<and> RedundantSecondArray_can_be_applied copy_graph copy_candidate copy_sdfg True
        \<noteq> Inr False"
  by (simp add: check_defs copy_defs)

subsection \<open>The graph after apply\<close>

lemma list_get_update: "list_get xs i = Inr x \<Longrightarrow> list_get (xs[i := y]) i = Inr y"
  by (simp add: list_get_def split: if_splits)

lemma remove_node_gone:
  "n \<notin> set (nodes (remove_node graph n))
   \<and> (\<forall>e\<in>set (edges (remove_node graph n)). src e \<noteq> n \<and> dst e \<noteq> n)"
  by (simp add: remove_node_def)

lemma RedundantArray_apply_graph:
  assumes "RedundantArray_apply memlet_path t w = Inr w'"
  obtains graph g1 where
    "list_get (states (program w)) (state_id t) = Inr graph"
    "c_in_array (subgraph t) < length (nodes graph)"
    "c_out_array (subgraph t) < length (nodes graph)"
    "for_each (redirect_in_edge memlet_path (nodes graph ! c_in_array (subgraph t))
         (nodes graph ! c_out_array (subgraph t)))
       (in_edges graph (nodes graph ! c_in_array (subgraph t))) graph = Inr g1"
    "list_get (states (program w')) (state_id t)
       = Inr (remove_node g1 (nodes graph ! c_in_array (subgraph t)))"
  using assms unfolding RedundantArray_apply_def
  by (cases "debugprint w")
    (auto simp: bind_eq_Inr Let_def set_state_def list_get_eq_Inr)

lemma RedundantSecondArray_apply_graph:
  assumes "RedundantSecondArray_apply memlet_tree t w = Inr w'"
  obtains graph g1 inp_subset out_subset where
    "list_get (states (program w)) (state_id t) = Inr graph"
    "c_in_array (subgraph t) < length (nodes graph)"
    "c_out_array (subgraph t) < length (nodes graph)"
    "connecting_subsets graph (nodes graph ! c_in_array (subgraph t))
       (nodes graph ! c_out_array (subgraph t)) = Inr (inp_subset, out_subset)"
    "for_each (redirect_out_edge memlet_tree (nodes graph ! c_in_array (subgraph t))
         (nodes graph ! c_out_array (subgraph t)) inp_subset out_subset)
       (out_edges graph (nodes graph ! c_out_array (subgraph t))) graph = Inr g1"
    "list_get (states (program w')) (state_id t)
       = Inr (remove_node g1 (nodes graph ! c_out_array (subgraph t)))"
  using assms unfolding RedundantSecondArray_apply_def
  by (cases "debugprint w")
    (auto simp: bind_eq_Inr Let_def set_state_def list_get_eq_Inr)

lemma chain_forward_reapplicable:
  "RedundantArray_can_be_applied chain_graph_forward chain_candidate
     (program chain_world_forward) True = Inr True"
  by (simp add: check_defs chain_defs chain_graph_forward_def chain_world_forward_def)

text \<open>
  C7, as the claim states it, fails. A candidate holds positions in
  \<^verbatim>\<open>graph.nodes()\<close>; once \<^verbatim>\<open>apply\<close> has removed a node, the positions name the nodes
  that moved up. On the chain the forward check accepts the candidate
  \<open>(1, 2)\<close>, that is \<open>(B, C)\<close>; \<^verbatim>\<open>apply\<close> removes \<open>B\<close>; on the resulting graph the same
  candidate is \<open>(C, D)\<close>, and the check returns true again.
\<close>

theorem reapplication_counterexample:
  "RedundantArray_can_be_applied chain_graph chain_candidate (program chain_world) True = Inr True
   \<and> RedundantArray_apply direct_path chain_transformation chain_world = Inr chain_world_forward
   \<and> list_get (states (program chain_world_forward)) (state_id chain_transformation)
        = Inr chain_graph_forward
   \<and> RedundantArray_can_be_applied chain_graph_forward (subgraph chain_transformation)
        (program chain_world_forward) True = Inr True"
  using chain_forward_applicable chain_forward_apply chain_forward_reapplicable
  by (simp add: chain_world_def chain_world_forward_def chain_transformation_def)

text \<open>
  C7, amended: after \<^verbatim>\<open>apply\<close> has returned, the node it removed (the first array
  for the forward rule, the second for the backward rule) is no longer a node of
  the graph, and no edge of the graph starts or ends at it; so no candidate over
  the resulting graph binds it.
\<close>

theorem removed_node_is_gone:
  "(RedundantArray_apply memlet_path t w = Inr w1 \<longrightarrow>
      (\<exists>graph graph'. list_get (states (program w)) (state_id t) = Inr graph
         \<and> list_get (states (program w1)) (state_id t) = Inr graph'
         \<and> nodes graph ! c_in_array (subgraph t) \<notin> set (nodes graph')
         \<and> (\<forall>e\<in>set (edges graph'). src e \<noteq> nodes graph ! c_in_array (subgraph t)
                \<and> dst e \<noteq> nodes graph ! c_in_array (subgraph t))))
   \<and> (RedundantSecondArray_apply memlet_tree t w = Inr w2 \<longrightarrow>
      (\<exists>graph graph'. list_get (states (program w)) (state_id t) = Inr graph
         \<and> list_get (states (program w2)) (state_id t) = Inr graph'
         \<and> nodes graph ! c_out_array (subgraph t) \<notin> set (nodes graph')
         \<and> (\<forall>e\<in>set (edges graph'). src e \<noteq> nodes graph ! c_out_array (subgraph t)
                \<and> dst e \<noteq> nodes graph ! c_out_array (subgraph t))))"
proof (intro conjI impI)
  assume "RedundantArray_apply memlet_path t w = Inr w1"
  then show "\<exists>graph graph'. list_get (states (program w)) (state_id t) = Inr graph
         \<and> list_get (states (program w1)) (state_id t) = Inr graph'
         \<and> nodes graph ! c_in_array (subgraph t) \<notin> set (nodes graph')
         \<and> (\<forall>e\<in>set (edges graph'). src e \<noteq> nodes graph ! c_in_array (subgraph t)
                \<and> dst e \<noteq> nodes graph ! c_in_array (subgraph t))"
    by (elim RedundantArray_apply_graph) (use remove_node_gone in blast)
next
  assume "RedundantSecondArray_apply memlet_tree t w = Inr w2"
  then show "\<exists>graph graph'. list_get (states (program w)) (state_id t) = Inr graph
         \<and> list_get (states (program w2)) (state_id t) = Inr graph'
         \<and> nodes graph ! c_out_array (subgraph t) \<notin> set (nodes graph')
         \<and> (\<forall>e\<in>set (edges graph'). src e \<noteq> nodes graph ! c_out_array (subgraph t)
                \<and> dst e \<noteq> nodes graph ! c_out_array (subgraph t))"
    by (elim RedundantSecondArray_apply_graph) (use remove_node_gone in blast)
qed

theorem removed_node_is_gone_witness:
  "RedundantArray_apply direct_path chain_transformation chain_world = Inr chain_world_forward
   \<and> chain_B \<notin> set (nodes chain_graph_forward)
   \<and> RedundantSecondArray_apply direct_path chain_transformation chain_world
        = Inr chain_world_backward
   \<and> chain_C \<notin> set (nodes chain_graph_backward)"
proof -
  have g: "list_get (states (program chain_world)) (state_id chain_transformation) = Inr chain_graph"
    by (simp add: chain_world_def chain_sdfg_def chain_transformation_def)
  have f: "list_get (states (program chain_world_forward)) (state_id chain_transformation)
             = Inr chain_graph_forward"
    by (simp add: chain_world_forward_def chain_transformation_def)
  have b: "list_get (states (program chain_world_backward)) (state_id chain_transformation)
             = Inr chain_graph_backward"
    by (simp add: chain_world_backward_def chain_transformation_def)
  have n: "nodes chain_graph ! c_in_array (subgraph chain_transformation) = chain_B"
    "nodes chain_graph ! c_out_array (subgraph chain_transformation) = chain_C"
    by (simp_all add: chain_graph_def chain_transformation_def chain_candidate_def)
  from removed_node_is_gone [of direct_path chain_transformation chain_world chain_world_forward
      direct_path chain_world_backward] chain_forward_apply chain_backward_apply g f b n
  show ?thesis by auto
qed

subsection \<open>Edge objects and in-place updates\<close>

lemma map_err_Inr_length:
  "map_err f xs = Inr ys \<Longrightarrow> length ys = length xs"
  by (induction xs arbitrary: ys) (auto simp: bind_eq_Inr)

lemma map_err_Inr_nth:
  "map_err f xs = Inr ys \<Longrightarrow> i < length xs \<Longrightarrow> f (xs ! i) = Inr (ys ! i)"
proof (induction xs arbitrary: ys i)
  case Nil
  then show ?case by simp
next
  case (Cons x xs)
  then show ?case by (cases i) (auto simp: bind_eq_Inr)
qed

lemma map_err_Inr_mem:
  assumes "map_err f xs = Inr ys" and "x \<in> set xs"
  shows "\<exists>y\<in>set ys. f x = Inr y"
  using assms by (induction xs arbitrary: ys) (auto simp: bind_eq_Inr)

lemma modify_step_eid:
  "(if eid x = i then bind (f (edata x)) (\<lambda>m. Inr (x\<lparr>edata := m\<rparr>)) else Inr x) = Inr y
     \<Longrightarrow> eid y = eid x"
  by (auto simp: bind_eq_Inr split: if_splits)

lemma modify_edge_eids:
  assumes "modify_edge f graph i = Inr g'"
  shows "map eid (edges g') = map eid (edges graph)" and "nodes g' = nodes graph"
proof -
  from assms obtain es where
    es: "map_err (\<lambda>x. if eid x = i then bind (f (edata x)) (\<lambda>m. Inr (x\<lparr>edata := m\<rparr>)) else Inr x)
           (edges graph) = Inr es"
    and g': "g' = graph\<lparr>edges := es\<rparr>"
    by (auto simp: modify_edge_def bind_eq_Inr)
  have "map eid es = map eid (edges graph)"
  proof (rule nth_equalityI)
    show "length (map eid es) = length (map eid (edges graph))"
      using map_err_Inr_length [OF es] by simp
  next
    fix k assume "k < length (map eid es)"
    then have k: "k < length (edges graph)" using map_err_Inr_length [OF es] by simp
    from map_err_Inr_nth [OF es k] have "eid (es ! k) = eid (edges graph ! k)"
      by (rule modify_step_eid)
    with k map_err_Inr_length [OF es] show "map eid es ! k = map eid (edges graph) ! k" by simp
  qed
  with g' show "map eid (edges g') = map eid (edges graph)" by simp
  from g' show "nodes g' = nodes graph" by simp
qed

lemma modify_edge_other:
  assumes "modify_edge f graph i = Inr g'" and "y \<in> set (edges graph)" and "eid y \<noteq> i"
  shows "y \<in> set (edges g')"
proof -
  from assms(1) obtain es where
    es: "map_err (\<lambda>x. if eid x = i then bind (f (edata x)) (\<lambda>m. Inr (x\<lparr>edata := m\<rparr>)) else Inr x)
           (edges graph) = Inr es"
    and g': "g' = graph\<lparr>edges := es\<rparr>"
    by (auto simp: modify_edge_def bind_eq_Inr)
  from map_err_Inr_mem [OF es assms(2)] assms(3) g' show ?thesis by auto
qed

lemma modify_edge_this:
  assumes "modify_edge f graph i = Inr g'" and "y \<in> set (edges graph)" and "eid y = i"
  shows "\<exists>m. f (edata y) = Inr m \<and> y\<lparr>edata := m\<rparr> \<in> set (edges g')"
proof -
  from assms(1) obtain es where
    es: "map_err (\<lambda>x. if eid x = i then bind (f (edata x)) (\<lambda>m. Inr (x\<lparr>edata := m\<rparr>)) else Inr x)
           (edges graph) = Inr es"
    and g': "g' = graph\<lparr>edges := es\<rparr>"
    by (auto simp: modify_edge_def bind_eq_Inr)
  from map_err_Inr_mem [OF es assms(2)] assms(3) g' show ?thesis by (auto simp: bind_eq_Inr)
qed

lemma modify_edges_eids:
  assumes "for_each (modify_edge f) ids graph = Inr g'"
  shows "map eid (edges g') = map eid (edges graph) \<and> nodes g' = nodes graph"
  using assms
  by (induction ids arbitrary: graph) (auto simp: bind_eq_Inr dest: modify_edge_eids)

lemma modify_edges_other:
  assumes "for_each (modify_edge f) ids graph = Inr g'"
    and "y \<in> set (edges graph)" and "eid y \<notin> set ids"
  shows "y \<in> set (edges g')"
  using assms
  by (induction ids arbitrary: graph) (auto simp: bind_eq_Inr dest: modify_edge_other)

lemma modify_edges_once:
  assumes "for_each (modify_edge f) ids graph = Inr g'"
    and "y \<in> set (edges graph)" and "eid y \<in> set ids" and "distinct ids"
  shows "\<exists>m. f (edata y) = Inr m \<and> y\<lparr>edata := m\<rparr> \<in> set (edges g')"
  using assms
proof (induction ids arbitrary: graph)
  case Nil
  then show ?case by simp
next
  case (Cons i ids)
  from Cons.prems(1) obtain g1 where
    g1: "modify_edge f graph i = Inr g1" and rest: "for_each (modify_edge f) ids g1 = Inr g'"
    by (auto simp: bind_eq_Inr)
  show ?case
  proof (cases "eid y = i")
    case True
    from modify_edge_this [OF g1 Cons.prems(2) True] obtain m where
      m: "f (edata y) = Inr m" "y\<lparr>edata := m\<rparr> \<in> set (edges g1)" by blast
    from True Cons.prems(4) have "eid (y\<lparr>edata := m\<rparr>) \<notin> set ids" by simp
    from modify_edges_other [OF rest m(2) this] m(1) show ?thesis by blast
  next
    case False
    from modify_edge_other [OF g1 Cons.prems(2) False] have "y \<in> set (edges g1)" .
    moreover from False Cons.prems(3) have "eid y \<in> set ids" by simp
    moreover from Cons.prems(4) have "distinct ids" by simp
    ultimately show ?thesis using Cons.IH [OF rest] by blast
  qed
qed

lemma find_distinct_eid:
  assumes "distinct (map eid es)" and "y \<in> set es"
  shows "find (\<lambda>x. eid x = eid y) es = Some y"
  using assms by (induction es) (auto simp: rev_image_eqI)

lemma current_mem:
  assumes "distinct (map eid (edges graph))" and "y \<in> set (edges graph)"
  shows "current graph y = y"
  by (simp add: current_def find_distinct_eid [OF assms])

lemma current_same_eid:
  assumes "distinct (map eid (edges graph))" and "y \<in> set (edges graph)" and "eid x = eid y"
  shows "current graph x = y"
  using find_distinct_eid [OF assms(1,2)] assms(3) by (simp add: current_def)

lemma eid_current [simp]: "eid (current graph x) = eid x"
  by (auto simp: current_def split: option.splits dest: find_Some_iff [THEN iffD1])

lemma redirected_keeps_other:
  assumes "for_each (modify_edge f) ids graph = Inr g1"
    and "y \<in> set (edges graph)" and "eid y \<notin> set ids" and "eid y \<noteq> eid x"
  shows "y \<in> set (edges (add_edge (remove_edge g1 x) i u u_conn v v_conn m))"
  using modify_edges_other [OF assms(1-3)] assms(4)
  by (simp add: add_edge_def remove_edge_def)

lemma redirected_distinct:
  assumes "for_each (modify_edge f) ids graph = Inr g1"
    and "distinct (map eid (edges graph))"
  shows "distinct (map eid (edges (add_edge (remove_edge g1 x) (eid x) u u_conn v v_conn m)))"
    and "nodes (add_edge (remove_edge g1 x) (eid x) u u_conn v v_conn m) = nodes graph"
proof -
  from modify_edges_eids [OF assms(1)] assms(2)
  have d: "distinct (map eid (edges g1))" and n: "nodes g1 = nodes graph" by simp_all
  from d show "distinct (map eid (edges (add_edge (remove_edge g1 x) (eid x) u u_conn v v_conn m)))"
    by (auto simp: add_edge_def remove_edge_def distinct_map_filter)
  from n show "nodes (add_edge (remove_edge g1 x) (eid x) u u_conn v v_conn m) = nodes graph"
    by (simp add: add_edge_def remove_edge_def)
qed

lemma redirected_own:
  assumes "for_each (modify_edge f) ids graph = Inr g1"
    and "distinct (map eid (edges graph))" and "y \<in> set (edges graph)"
    and "eid y \<in> set ids" and "distinct ids" and "eid x = eid y"
  shows "\<exists>m. f (edata y) = Inr m
           \<and> \<lparr>eid = i, src = u, src_conn = u_conn, dst = v, dst_conn = v_conn, edata = m\<rparr>
               \<in> set (edges (add_edge (remove_edge g1 x) i u u_conn v v_conn
                                (edata (current g1 x))))"
proof -
  from modify_edges_once [OF assms(1,3,4,5)] obtain m where
    m: "f (edata y) = Inr m" "y\<lparr>edata := m\<rparr> \<in> set (edges g1)" by blast
  from modify_edges_eids [OF assms(1)] assms(2) have "distinct (map eid (edges g1))" by simp
  from current_same_eid [OF this m(2)] assms(6) have "current g1 x = y\<lparr>edata := m\<rparr>" by simp
  with m(1) show ?thesis by (auto simp: add_edge_def)
qed

subsection \<open>Regions after the backward rule\<close>

lemma redirect_out_edge_keeps_other:
  assumes "redirect_out_edge memlet_tree u v inp_subset out_subset graph x = Inr g'"
    and "y \<in> set (edges graph)" and "eid y \<noteq> eid x"
    and "eid y \<notin> set (memlet_tree graph (current graph x))"
  shows "y \<in> set (edges g')"
  using assms
  by (auto simp: redirect_out_edge_def bind_eq_Inr intro: redirected_keeps_other)

lemma redirect_out_edge_distinct:
  assumes "redirect_out_edge memlet_tree u v inp_subset out_subset graph x = Inr g'"
    and "distinct (map eid (edges graph))"
  shows "distinct (map eid (edges g'))" and "nodes g' = nodes graph"
  using assms
  by (auto simp: redirect_out_edge_def bind_eq_Inr dest: redirected_distinct)

lemma redirect_out_edge_own:
  assumes "redirect_out_edge memlet_tree u v inp_subset out_subset graph x = Inr g'"
    and "distinct (map eid (edges graph))" and "x \<in> set (edges graph)"
    and "eid x \<in> set (memlet_tree graph x)" and "distinct (memlet_tree graph x)"
  shows "\<exists>m. migrate_memlet u v inp_subset out_subset (edata x) = Inr m
           \<and> \<lparr>eid = eid x, src = u, src_conn = src_conn x, dst = dst x, dst_conn = dst_conn x,
               edata = m\<rparr> \<in> set (edges g')"
proof -
  from assms(2,3) have c: "current graph x = x" by (rule current_mem)
  from assms(1) obtain g1 where
    g1: "for_each (modify_edge (migrate_memlet u v inp_subset out_subset))
           (memlet_tree graph x) graph = Inr g1"
    and g': "g' = add_edge (remove_edge g1 x) (eid x) u (src_conn x) (dst x) (dst_conn x)
                    (edata (current g1 x))"
    by (auto simp: redirect_out_edge_def bind_eq_Inr c)
  from redirected_own [OF g1 assms(2,3,4,5) refl] g' show ?thesis by blast
qed

lemma out_loop_keeps_other:
  assumes "for_each (redirect_out_edge memlet_tree u v inp_subset out_subset) xs graph = Inr g'"
    and "\<forall>g x. \<forall>y\<in>set (edges g).
           eid y \<in> set (memlet_tree g x) \<longrightarrow> is_access (src y) \<longrightarrow> eid y = eid x"
    and "y \<in> set (edges graph)" and "is_access (src y)" and "eid y \<notin> eid ` set xs"
  shows "y \<in> set (edges g')"
  using assms(1,3,5)
proof (induction xs arbitrary: graph)
  case Nil
  then show ?case by simp
next
  case (Cons x xs)
  from Cons.prems(1) obtain g1 where
    g1: "redirect_out_edge memlet_tree u v inp_subset out_subset graph x = Inr g1"
    and rest: "for_each (redirect_out_edge memlet_tree u v inp_subset out_subset) xs g1 = Inr g'"
    by (auto simp: bind_eq_Inr)
  from Cons.prems(3) have ne: "eid y \<noteq> eid x" by auto
  have "eid y \<notin> set (memlet_tree graph (current graph x))"
  proof
    assume "eid y \<in> set (memlet_tree graph (current graph x))"
    with assms(2) Cons.prems(2) assms(4) have "eid y = eid (current graph x)" by blast
    with ne show False by simp
  qed
  from redirect_out_edge_keeps_other [OF g1 Cons.prems(2) ne this] have "y \<in> set (edges g1)" .
  moreover from Cons.prems(3) have "eid y \<notin> eid ` set xs" by auto
  ultimately show ?case using Cons.IH [OF rest] by blast
qed

lemma out_loop_target:
  assumes "for_each (redirect_out_edge memlet_tree u v inp_subset out_subset) xs graph = Inr g'"
    and tree: "\<forall>g x. \<forall>y\<in>set (edges g).
           eid y \<in> set (memlet_tree g x) \<longrightarrow> is_access (src y) \<longrightarrow> eid y = eid x"
    and root: "\<forall>g x. distinct (memlet_tree g x) \<and> eid x \<in> set (memlet_tree g x)"
    and "is_access u"
    and "distinct (map eid (edges graph))" and "distinct (map eid xs)"
    and "set xs \<subseteq> set (edges graph)" and "\<forall>x\<in>set xs. is_access (src x)"
    and "e \<in> set xs"
  shows "\<exists>m. migrate_memlet u v inp_subset out_subset (edata e) = Inr m
           \<and> \<lparr>eid = eid e, src = u, src_conn = src_conn e, dst = dst e, dst_conn = dst_conn e,
               edata = m\<rparr> \<in> set (edges g')"
  using assms(1,5-9)
proof (induction xs arbitrary: graph)
  case Nil
  then show ?case by simp
next
  case (Cons x xs)
  from Cons.prems(1) obtain g1 where
    g1: "redirect_out_edge memlet_tree u v inp_subset out_subset graph x = Inr g1"
    and rest: "for_each (redirect_out_edge memlet_tree u v inp_subset out_subset) xs g1 = Inr g'"
    by (auto simp: bind_eq_Inr)
  show ?case
  proof (cases "x = e")
    case True
    from Cons.prems(4) have xg: "x \<in> set (edges graph)" by simp
    from redirect_out_edge_own [OF g1 Cons.prems(2) xg] root obtain m where
      m: "migrate_memlet u v inp_subset out_subset (edata x) = Inr m"
      and new: "\<lparr>eid = eid x, src = u, src_conn = src_conn x, dst = dst x, dst_conn = dst_conn x,
                 edata = m\<rparr> \<in> set (edges g1)"
      by blast
    from Cons.prems(3) have "eid x \<notin> eid ` set xs" by auto
    with out_loop_keeps_other [OF rest tree new] assms(4)
    have "\<lparr>eid = eid x, src = u, src_conn = src_conn x, dst = dst x, dst_conn = dst_conn x,
           edata = m\<rparr> \<in> set (edges g')"
      by simp
    with m True show ?thesis by blast
  next
    case False
    with Cons.prems(6) have e: "e \<in> set xs" by simp
    have sub: "set xs \<subseteq> set (edges g1)"
    proof
      fix y assume y: "y \<in> set xs"
      with Cons.prems(4) have yg: "y \<in> set (edges graph)" by auto
      from y Cons.prems(3) have ne: "eid y \<noteq> eid x" by (metis distinct.simps(2) imageI list.simps(9) list.set_map)
      from y Cons.prems(5) have acc: "is_access (src y)" by simp
      have "eid y \<notin> set (memlet_tree graph (current graph x))"
      proof
        assume "eid y \<in> set (memlet_tree graph (current graph x))"
        with tree yg acc have "eid y = eid (current graph x)" by blast
        with ne show False by simp
      qed
      from redirect_out_edge_keeps_other [OF g1 yg ne this] show "y \<in> set (edges g1)" .
    qed
    from redirect_out_edge_distinct(1) [OF g1 Cons.prems(2)] Cons.prems(3,5) sub e
    show ?thesis by (intro Cons.IH [OF rest]) simp_all
  qed
qed

lemma migrate_subset_point:
  "migrate_subset (Range [(a, a + b - 1, 1)]) (Range [(c, c + b - 1, 1)]) (Some (Indices [c + d]))
     = Inr (Indices [a + d])"
  by (simp add: migrate_subset_def offset_def compose_def)

lemma migrate_subset_range:
  "migrate_subset (Range [(a, a + b - 1, 1)]) (Range [(c, c + b - 1, 1)])
     (Some (Range [(c + d, c + d + k - 1, s)]))
     = Inr (Range [(a + d, a + d + k - 1, s)])"
  by (simp add: migrate_subset_def offset_def compose_def)

lemma node_data_access: "ntype n = AccessNode d \<Longrightarrow> node_data n = Inr d"
  by (simp add: node_data_def)

lemma is_access_AccessNode: "ntype n = AccessNode d \<Longrightarrow> is_access n"
  by (simp add: is_access_def)

lemma connecting_subsets_explicit:
  assumes "edges_between graph u v = e0 # es" and "ntype u = AccessNode u_data"
    and "edata e0 = \<lparr>data = Some u_data, subset = Some r, other_subset = Some q\<rparr>"
  shows "connecting_subsets graph u v = Inr (r, q)"
  using assms by (simp add: connecting_subsets_def node_data_access Let_def)

text \<open>
  C1: the backward rule re-derives the region of a migrated edge correctly. Let
  the first edge between the two data nodes copy the producer's region \<open>[a, a+b)\<close>
  into the destination's region \<open>[c, c+b)\<close>, and let an edge \<open>e\<close> leave the
  destination node, name the destination container and read it at the point
  \<open>c + d\<close>. When \<^verbatim>\<open>apply\<close> returns, the graph holds the migrated edge: it starts at
  the producer's node, keeps the connectors and the end of \<open>e\<close>, names the
  producer's container and reads it at the point \<open>a + d\<close>. This holds for every
  \<open>d\<close>, so for \<open>0 \<le> d < b\<close>. The tree of an edge, a parameter, is assumed to hold
  the edge itself once and, besides it, only edges that start at nodes other than
  data nodes; edge objects are distinct.
\<close>

theorem backward_region_correctness:
  assumes "RedundantSecondArray_apply memlet_tree t w = Inr w'"
    and "list_get (states (program w)) (state_id t) = Inr graph"
    and "nodes graph ! c_in_array (subgraph t) = in_array"
    and "nodes graph ! c_out_array (subgraph t) = out_array"
    and "ntype in_array = AccessNode in_data"
    and "ntype out_array = AccessNode out_data"
    and "in_array \<noteq> out_array"
    and "distinct (map eid (edges graph))"
    and "\<forall>g x. \<forall>y\<in>set (edges g).
           eid y \<in> set (memlet_tree g x) \<longrightarrow> is_access (src y) \<longrightarrow> eid y = eid x"
    and "\<forall>g x. distinct (memlet_tree g x) \<and> eid x \<in> set (memlet_tree g x)"
    and "connecting_subsets graph in_array out_array
           = Inr (Range [(a, a + b - 1, 1)], Range [(c, c + b - 1, 1)])"
    and "e \<in> set (edges graph)" and "src e = out_array" and "dst e \<noteq> out_array"
    and "data (edata e) = Some out_data"
    and "subset (edata e) = Some (Indices [c + d])"
  shows "\<exists>graph'. list_get (states (program w')) (state_id t) = Inr graph'
           \<and> \<lparr>eid = eid e, src = in_array, src_conn = src_conn e, dst = dst e,
               dst_conn = dst_conn e,
               edata = (edata e)\<lparr>data := Some in_data, subset := Some (Indices [a + d])\<rparr>\<rparr>
               \<in> set (edges graph')"
proof -
  let ?inp = "Range [(a, a + b - 1, 1)]" and ?out = "Range [(c, c + b - 1, 1)]"
  from assms(1) obtain graph0 g1 inp_subset out_subset where
    g0: "list_get (states (program w)) (state_id t) = Inr graph0"
    and cs: "connecting_subsets graph0 (nodes graph0 ! c_in_array (subgraph t))
               (nodes graph0 ! c_out_array (subgraph t)) = Inr (inp_subset, out_subset)"
    and loop: "for_each (redirect_out_edge memlet_tree (nodes graph0 ! c_in_array (subgraph t))
                  (nodes graph0 ! c_out_array (subgraph t)) inp_subset out_subset)
                (out_edges graph0 (nodes graph0 ! c_out_array (subgraph t))) graph0 = Inr g1"
    and res: "list_get (states (program w')) (state_id t)
               = Inr (remove_node g1 (nodes graph0 ! c_out_array (subgraph t)))"
    by (rule RedundantSecondArray_apply_graph)
  from g0 assms(2) have [simp]: "graph0 = graph" by simp
  from cs assms(3,4,11) have [simp]: "inp_subset = ?inp" "out_subset = ?out" by simp_all
  from loop assms(3,4)
  have loop': "for_each (redirect_out_edge memlet_tree in_array out_array ?inp ?out)
                 (out_edges graph out_array) graph = Inr g1"
    by simp
  have e_out: "e \<in> set (out_edges graph out_array)"
    using assms(12,13) by (simp add: out_edges_def)
  have "\<exists>m. migrate_memlet in_array out_array ?inp ?out (edata e) = Inr m
           \<and> \<lparr>eid = eid e, src = in_array, src_conn = src_conn e, dst = dst e,
               dst_conn = dst_conn e, edata = m\<rparr> \<in> set (edges g1)"
  proof (rule out_loop_target [OF loop' assms(9,10) _ assms(8) _ _ _ e_out])
    show "is_access in_array" using assms(5) by (rule is_access_AccessNode)
    show "distinct (map eid (out_edges graph out_array))"
      using assms(8) by (simp add: out_edges_def distinct_map_filter)
    show "set (out_edges graph out_array) \<subseteq> set (edges graph)"
      by (auto simp: out_edges_def)
    show "\<forall>x\<in>set (out_edges graph out_array). is_access (src x)"
      using assms(6) by (auto simp: out_edges_def is_access_AccessNode)
  qed
  moreover have "migrate_memlet in_array out_array ?inp ?out (edata e)
                   = Inr ((edata e)\<lparr>data := Some in_data, subset := Some (Indices [a + d])\<rparr>)"
    using assms(5,6,15,16)
    by (simp add: migrate_memlet_def node_data_access migrate_subset_point)
  ultimately have "\<lparr>eid = eid e, src = in_array, src_conn = src_conn e, dst = dst e,
               dst_conn = dst_conn e,
               edata = (edata e)\<lparr>data := Some in_data, subset := Some (Indices [a + d])\<rparr>\<rparr>
               \<in> set (edges g1)"
    by simp
  with assms(7,14)
  have "\<lparr>eid = eid e, src = in_array, src_conn = src_conn e, dst = dst e,
               dst_conn = dst_conn e,
               edata = (edata e)\<lparr>data := Some in_data, subset := Some (Indices [a + d])\<rparr>\<rparr>
               \<in> set (edges (remove_node g1 out_array))"
    by (simp add: remove_node_def)
  with res assms(4) show ?thesis by simp
qed

lemma win_apply:
  "RedundantSecondArray_apply direct_path win_transformation win_world = Inr win_world_after"
  by (simp add: RedundantSecondArray_apply_def win_transformation_def win_world_def
      win_graph_def win_read_edge_def win_graph_after_def win_world_after_def
      out_edges_def edges_between_def connecting_subsets_def list_get_def
      redirect_out_edge_def direct_path_def current_def modify_edge_def migrate_memlet_def
      migrate_subset_def compose_def offset_def node_data_def win_A_def win_C_def
      win_tasklet_def add_edge_def remove_edge_def remove_node_def set_state_def Let_def)

theorem backward_region_correctness_witness:
  "RedundantSecondArray_apply direct_path win_transformation win_world = Inr win_world_after
   \<and> connecting_subsets win_graph win_A win_C
        = Inr (Range [(2, 2 + 4 - 1, 1)], Range [(5, 5 + 4 - 1, 1)])
   \<and> win_read_edge \<in> set (edges win_graph)
   \<and> subset (edata win_read_edge) = Some (Indices [5 + 1])
   \<and> (\<exists>graph'. list_get (states (program win_world_after)) 0 = Inr graph'
         \<and> \<lparr>eid = 1, src = win_A, src_conn = None, dst = win_tasklet, dst_conn = Some ''x'',
             edata = \<lparr>data = Some ''A'', subset = Some (Indices [2 + 1]), other_subset = None\<rparr>\<rparr>
             \<in> set (edges graph'))"
proof -
  have 2: "list_get (states (program win_world)) (state_id win_transformation) = Inr win_graph"
    by (simp add: win_world_def win_transformation_def)
  have 3: "nodes win_graph ! c_in_array (subgraph win_transformation) = win_A"
    and 4: "nodes win_graph ! c_out_array (subgraph win_transformation) = win_C"
    by (simp_all add: win_graph_def win_transformation_def)
  have 5: "ntype win_A = AccessNode ''A''" and 6: "ntype win_C = AccessNode ''C''"
    by (simp_all add: win_A_def win_C_def)
  have 7: "win_A \<noteq> win_C" by (simp add: win_A_def win_C_def)
  have 8: "distinct (map eid (edges win_graph))"
    by (simp add: win_graph_def win_read_edge_def)
  have 9: "\<forall>g x. \<forall>y\<in>set (edges g).
           eid y \<in> set (direct_path g x) \<longrightarrow> is_access (src y) \<longrightarrow> eid y = eid x"
    by (simp add: direct_path_def)
  have 10: "\<forall>g x. distinct (direct_path g x) \<and> eid x \<in> set (direct_path g x)"
    by (simp add: direct_path_def)
  have 11: "connecting_subsets win_graph win_A win_C
        = Inr (Range [(2, 2 + 4 - 1, 1)], Range [(5, 5 + 4 - 1, 1)])"
    by (simp add: connecting_subsets_def edges_between_def out_edges_def win_graph_def
        win_read_edge_def win_A_def win_C_def win_tasklet_def node_data_def Let_def)
  have 12: "win_read_edge \<in> set (edges win_graph)" by (simp add: win_graph_def)
  have 13: "src win_read_edge = win_C" and 14: "dst win_read_edge \<noteq> win_C"
    and 15: "data (edata win_read_edge) = Some ''C''"
    and 16: "subset (edata win_read_edge) = Some (Indices [5 + 1])"
    by (simp_all add: win_read_edge_def win_C_def win_tasklet_def)
  from backward_region_correctness [OF win_apply 2 3 4 5 6 7 8 9 10 11 12 13 14 15 16]
  have "\<exists>graph'. list_get (states (program win_world_after)) (state_id win_transformation)
                    = Inr graph'
         \<and> \<lparr>eid = eid win_read_edge, src = win_A, src_conn = src_conn win_read_edge,
             dst = dst win_read_edge, dst_conn = dst_conn win_read_edge,
             edata = (edata win_read_edge)\<lparr>data := Some ''A'',
                       subset := Some (Indices [2 + 1])\<rparr>\<rparr>
             \<in> set (edges graph')" .
  then have "\<exists>graph'. list_get (states (program win_world_after)) 0 = Inr graph'
         \<and> \<lparr>eid = 1, src = win_A, src_conn = None, dst = win_tasklet, dst_conn = Some ''x'',
             edata = \<lparr>data = Some ''A'', subset = Some (Indices [2 + 1]), other_subset = None\<rparr>\<rparr>
             \<in> set (edges graph')"
    by (simp add: win_read_edge_def win_transformation_def)
  with win_apply 11 12 16 show ?thesis by blast
qed

subsection \<open>The forward apply, exactly\<close>

lemma rename_memlet_access:
  assumes "node_data u = Inr ind" and "node_data v = Inr outd"
  shows "rename_memlet u v m = Inr (if data m = Some ind then m\<lparr>data := Some outd\<rparr> else m)"
  using assms by (simp add: rename_memlet_def)

lemma map_err_total:
  assumes "\<And>x. f x = Inr (h x)"
  shows "map_err f xs = Inr (map h xs)"
  by (induction xs) (simp_all add: assms)

lemma modify_edge_rename:
  assumes "node_data u = Inr ind" and "node_data v = Inr outd"
  shows "modify_edge (rename_memlet u v) graph i
           = Inr (graph\<lparr>edges := map (rename_segment [i] ind outd) (edges graph)\<rparr>)"
proof -
  have "map_err (\<lambda>x. if eid x = i then bind (rename_memlet u v (edata x)) (\<lambda>m. Inr (x\<lparr>edata := m\<rparr>))
                      else Inr x) (edges graph)
          = Inr (map (rename_segment [i] ind outd) (edges graph))"
    by (rule map_err_total) (simp add: rename_memlet_access [OF assms] rename_segment_def)
  then show ?thesis by (simp add: modify_edge_def)
qed

lemma rename_segment_eid [simp]: "eid (rename_segment p a b x) = eid x"
  and rename_segment_src [simp]: "src (rename_segment p a b x) = src x"
  and rename_segment_dst [simp]: "dst (rename_segment p a b x) = dst x"
  and rename_segment_src_conn [simp]: "src_conn (rename_segment p a b x) = src_conn x"
  and rename_segment_dst_conn [simp]: "dst_conn (rename_segment p a b x) = dst_conn x"
  by (simp_all add: rename_segment_def)

lemma rename_segment_twice:
  "rename_segment p a b (rename_segment q a b x) = rename_segment (q @ p) a b x"
  by (cases "a = b") (auto simp: rename_segment_def)

lemma rename_segment_Nil [simp]: "rename_segment [] a b x = x"
  by (simp add: rename_segment_def)

lemma rename_segment_set:
  "set p = set q \<Longrightarrow> rename_segment p a b x = rename_segment q a b x"
  by (simp add: rename_segment_def)

lemma rename_path:
  assumes "node_data u = Inr ind" and "node_data v = Inr outd"
  shows "for_each (modify_edge (rename_memlet u v)) ids graph
           = Inr (graph\<lparr>edges := map (rename_segment ids ind outd) (edges graph)\<rparr>)"
proof (induction ids arbitrary: graph)
  case Nil
  then show ?case by (simp add: map_idI)
next
  case (Cons i ids)
  have "for_each (modify_edge (rename_memlet u v)) (i # ids) graph
          = bind (modify_edge (rename_memlet u v) graph i)
              (for_each (modify_edge (rename_memlet u v)) ids)"
    by simp
  also have "\<dots> = for_each (modify_edge (rename_memlet u v)) ids
                      (graph\<lparr>edges := map (rename_segment [i] ind outd) (edges graph)\<rparr>)"
    by (subst modify_edge_rename [OF assms]) simp
  also have "\<dots> = Inr (graph\<lparr>edges := map (rename_segment (i # ids) ind outd) (edges graph)\<rparr>)"
    by (subst Cons.IH) (simp add: rename_segment_twice comp_def)
  finally show ?case .
qed

lemma rename_segment_endpoints [simp]: "endpoints (rename_segment p a b x) = endpoints x"
  by (simp add: endpoints_def)

lemma rename_segment_dst_update:
  "rename_segment p a b (z\<lparr>dst := v\<rparr>) = (rename_segment p a b z)\<lparr>dst := v\<rparr>"
  by (simp add: rename_segment_def)

lemma endpoints_eid: "endpoints y = endpoints x \<Longrightarrow> eid y = eid x"
  and endpoints_dst: "endpoints y = endpoints x \<Longrightarrow> dst y = dst x"
  by (simp_all add: endpoints_def)

lemma skeleton_renamed:
  "map endpoints (filter (\<lambda>z. \<not> is_access (dst z)) (map (rename_segment p a b) es))
     = map endpoints (filter (\<lambda>z. \<not> is_access (dst z)) es)"
  by (induction es) simp_all

lemma redirect_in_edge_explicit:
  assumes "node_data u = Inr ind" and "node_data v = Inr outd"
    and "distinct (map eid (edges graph))"
    and "y \<in> set (edges graph)" and "endpoints y = endpoints x"
  shows "redirect_in_edge memlet_path u v graph x
           = Inr (graph\<lparr>edges :=
                    filter (\<lambda>z. eid z \<noteq> eid x)
                      (map (rename_segment (memlet_path graph y) ind outd) (edges graph))
                    @ [(rename_segment (memlet_path graph y) ind outd y)\<lparr>dst := v\<rparr>]\<rparr>)"
proof -
  let ?ren = "rename_segment (memlet_path graph y) ind outd"
  let ?g1 = "graph\<lparr>edges := map ?ren (edges graph)\<rparr>"
  from assms(5) have ex: "eid x = eid y" by (simp add: endpoints_def)
  from current_same_eid [OF assms(3,4) ex] have c: "current graph x = y" .
  have d1: "distinct (map eid (edges ?g1))" using assms(3) by (simp add: comp_def)
  have "?ren y \<in> set (edges ?g1)" using assms(4) by simp
  from current_same_eid [OF d1 this, of x] ex have c1: "current ?g1 x = ?ren y" by simp
  have new: "\<lparr>eid = eid x, src = src x, src_conn = src_conn x, dst = v, dst_conn = dst_conn x,
              edata = edata (?ren y)\<rparr> = (?ren y)\<lparr>dst := v\<rparr>"
    using assms(5) by (intro edge.equality) (simp_all add: endpoints_def)
  show ?thesis
    unfolding redirect_in_edge_def c rename_path [OF assms(1,2)]
    by (simp add: c1 add_edge_def remove_edge_def new)
qed

lemma in_loop_result:
  assumes nd: "node_data u = Inr ind" "node_data v = Inr outd"
    and acc: "is_access u" "is_access v"
    and stable: "\<And>g' x x'. x \<in> X \<Longrightarrow> nodes g' = N \<Longrightarrow> skeleton g' = S
                   \<Longrightarrow> endpoints x' = endpoints x \<Longrightarrow> memlet_path g' x' = pth x"
    and "set xs \<subseteq> X" and "nodes graph = N" and "skeleton graph = S"
    and "distinct (map eid (edges graph))" and "distinct (map eid xs)"
    and "\<forall>x\<in>set xs. dst x = u \<and> (\<exists>y\<in>set (edges graph). endpoints y = endpoints x)"
  shows "for_each (redirect_in_edge memlet_path u v) xs graph
           = Inr (graph\<lparr>edges :=
                    filter (\<lambda>z. eid z \<notin> eid ` set xs)
                      (map (rename_segment (concat (map pth xs)) ind outd) (edges graph))
                    @ map (\<lambda>x. (rename_segment (concat (map pth xs)) ind outd
                                  (current graph x))\<lparr>dst := v\<rparr>) xs\<rparr>)"
  using assms(6-11)
proof (induction xs arbitrary: graph)
  case Nil
  then show ?case by (simp add: map_idI)
next
  case (Cons x xs)
  let ?P1 = "pth x" and ?P2 = "concat (map pth xs)"
  let ?es = "edges graph"
  from Cons.prems(6) obtain y where y: "y \<in> set ?es" "endpoints y = endpoints x" and dx: "dst x = u"
    by auto
  from y(2) have exy: "eid x = eid y" by (simp add: endpoints_def)
  from current_same_eid [OF Cons.prems(4) y(1) exy] have cx: "current graph x = y" .
  from Cons.prems(1) have xX: "x \<in> X" by simp
  from stable [OF xX Cons.prems(2,3) y(2)] have mp: "memlet_path graph y = ?P1" .
  let ?new = "(rename_segment ?P1 ind outd y)\<lparr>dst := v\<rparr>"
  let ?es1 = "filter (\<lambda>z. eid z \<noteq> eid x) (map (rename_segment ?P1 ind outd) ?es) @ [?new]"
  let ?g1 = "graph\<lparr>edges := ?es1\<rparr>"
  have step: "redirect_in_edge memlet_path u v graph x = Inr ?g1"
    using redirect_in_edge_explicit [OF nd Cons.prems(4) y] by (simp add: mp)
  have only_y: "z = y" if "z \<in> set ?es" "eid z = eid x" for z
    using that y(1) exy Cons.prems(4) by (metis distinct_map inj_onD)
  have n1: "nodes ?g1 = N" using Cons.prems(2) by simp
  have "filter (\<lambda>z. \<not> is_access (dst z)) (filter (\<lambda>z. eid z \<noteq> eid x) ?es)
          = filter (\<lambda>z. \<not> is_access (dst z)) ?es"
  proof (subst filter_filter, rule filter_cong [OF refl])
    fix z assume z: "z \<in> set ?es"
    show "(eid z \<noteq> eid x \<and> \<not> is_access (dst z)) = (\<not> is_access (dst z))"
    proof (cases "eid z = eid x")
      case True
      with only_y z have "z = y" by simp
      with y(2) dx acc(1) have "is_access (dst z)" by (simp add: endpoints_def)
      with True show ?thesis by simp
    qed simp
  qed
  then have "filter (\<lambda>z. \<not> is_access (dst z))
               (filter (\<lambda>z. eid z \<noteq> eid x) (map (rename_segment ?P1 ind outd) ?es))
             = filter (\<lambda>z. \<not> is_access (dst z)) (map (rename_segment ?P1 ind outd) ?es)"
    by (simp add: filter_map comp_def)
  then have s1: "skeleton ?g1 = S"
    using Cons.prems(3) acc(2) by (simp add: skeleton_def skeleton_renamed)
  have d1: "distinct (map eid (edges ?g1))"
    using Cons.prems(4) exy by (auto simp: distinct_map_filter comp_def filter_map)
  from Cons.prems(5) have dxs: "distinct (map eid xs)" and nx: "eid x \<notin> eid ` set xs" by auto
  have nx': "eid x' \<noteq> eid x" if "x' \<in> set xs" for x'
    using that nx by (metis imageI)
  have cur1: "current ?g1 x' = rename_segment ?P1 ind outd (current graph x')"
    if "x' \<in> set xs" for x'
  proof -
    from that Cons.prems(6) obtain y' where
      y': "y' \<in> set ?es" "endpoints y' = endpoints x'" by auto
    from y'(2) have e': "eid x' = eid y'" by (simp add: endpoints_def)
    from that have "eid x' \<noteq> eid x" by (rule nx')
    with y'(1) e' have "rename_segment ?P1 ind outd y' \<in> set (edges ?g1)" by simp
    from current_same_eid [OF d1 this, of x'] e'
    have "current ?g1 x' = rename_segment ?P1 ind outd y'" by simp
    moreover from current_same_eid [OF Cons.prems(4) y'(1) e'] have "current graph x' = y'" .
    ultimately show ?thesis by simp
  qed
  have p1: "\<forall>x'\<in>set xs. dst x' = u \<and> (\<exists>y'\<in>set (edges ?g1). endpoints y' = endpoints x')"
  proof
    fix x' assume x': "x' \<in> set xs"
    with Cons.prems(6) obtain y' where
      y': "y' \<in> set ?es" "endpoints y' = endpoints x'" and d': "dst x' = u" by auto
    from nx' [OF x'] y'(2) have "eid y' \<noteq> eid x" by (simp add: endpoints_def)
    with y'(1) have "rename_segment ?P1 ind outd y' \<in> set (edges ?g1)" by simp
    with y'(2) d' show "dst x' = u \<and> (\<exists>y'\<in>set (edges ?g1). endpoints y' = endpoints x')"
      by (metis rename_segment_endpoints)
  qed
  from Cons.prems(1) have sub: "set xs \<subseteq> X" by simp
  have rest: "for_each (redirect_in_edge memlet_path u v) xs ?g1
           = Inr (?g1\<lparr>edges :=
                    filter (\<lambda>z. eid z \<notin> eid ` set xs)
                      (map (rename_segment ?P2 ind outd) (edges ?g1))
                    @ map (\<lambda>x. (rename_segment ?P2 ind outd (current ?g1 x))\<lparr>dst := v\<rparr>) xs\<rparr>)"
    by (rule Cons.IH [OF sub n1 s1 d1 dxs p1])
  have a: "filter (\<lambda>z. eid z \<notin> eid ` set xs) (map (rename_segment ?P2 ind outd) (edges ?g1))
             = filter (\<lambda>z. eid z \<notin> eid ` set (x # xs))
                 (map (rename_segment (?P1 @ ?P2) ind outd) ?es)
               @ [(rename_segment (?P1 @ ?P2) ind outd y)\<lparr>dst := v\<rparr>]"
    using nx exy
    by (simp add: filter_map comp_def rename_segment_twice rename_segment_dst_update conj_commute)
  have b: "map (\<lambda>x. (rename_segment ?P2 ind outd (current ?g1 x))\<lparr>dst := v\<rparr>) xs
             = map (\<lambda>x. (rename_segment (?P1 @ ?P2) ind outd (current graph x))\<lparr>dst := v\<rparr>) xs"
    by (rule map_cong [OF refl]) (simp add: cur1 rename_segment_twice)
  show ?case
    by (simp only: for_each.simps step bind_Inr rest a b)
       (simp add: cx)
qed

lemma in_loop_whole:
  assumes nd: "node_data u = Inr ind" "node_data v = Inr outd"
    and acc: "is_access u" "is_access v"
    and d: "distinct (map eid (edges graph))"
    and stable: "\<forall>g' x x'. x \<in> set (in_edges graph u) \<longrightarrow> nodes g' = nodes graph
                   \<longrightarrow> skeleton g' = skeleton graph \<longrightarrow> endpoints x' = endpoints x
                   \<longrightarrow> memlet_path g' x' = memlet_path graph x"
  shows "for_each (redirect_in_edge memlet_path u v) (in_edges graph u) graph
           = Inr (graph\<lparr>edges :=
                    (let paths = concat (map (memlet_path graph) (in_edges graph u));
                         renamed = map (rename_segment paths ind outd) (edges graph)
                     in filter (\<lambda>x. dst x \<noteq> u) renamed
                        @ map (\<lambda>x. x\<lparr>dst := v\<rparr>) (filter (\<lambda>x. dst x = u) renamed))\<rparr>)"
proof -
  let ?xs = "in_edges graph u"
  let ?ren = "rename_segment (concat (map (memlet_path graph) ?xs)) ind outd"
  have st: "\<And>g' x x'. x \<in> set ?xs \<Longrightarrow> nodes g' = nodes graph \<Longrightarrow> skeleton g' = skeleton graph
              \<Longrightarrow> endpoints x' = endpoints x \<Longrightarrow> memlet_path g' x' = memlet_path graph x"
    using stable by blast
  have dxs: "distinct (map eid ?xs)" using d by (simp add: in_edges_def distinct_map_filter)
  have pre: "\<forall>x\<in>set ?xs. dst x = u \<and> (\<exists>y\<in>set (edges graph). endpoints y = endpoints x)"
    by (auto simp: in_edges_def)
  have loop: "for_each (redirect_in_edge memlet_path u v) ?xs graph
           = Inr (graph\<lparr>edges :=
                    filter (\<lambda>z. eid z \<notin> eid ` set ?xs) (map ?ren (edges graph))
                    @ map (\<lambda>x. (?ren (current graph x))\<lparr>dst := v\<rparr>) ?xs\<rparr>)"
    by (rule in_loop_result [OF nd acc st subset_refl refl refl d dxs pre])
  have same: "z = x" if "z \<in> set (edges graph)" "x \<in> set (edges graph)" "eid z = eid x" for z x
    using that d by (metis distinct_map inj_onD)
  have a: "filter (\<lambda>z. eid z \<notin> eid ` set ?xs) (map ?ren (edges graph))
             = filter (\<lambda>x. dst x \<noteq> u) (map ?ren (edges graph))"
  proof (rule filter_cong [OF refl])
    fix z assume "z \<in> set (map ?ren (edges graph))"
    then obtain z0 where z0: "z0 \<in> set (edges graph)" "z = ?ren z0" by auto
    have "eid z0 \<in> eid ` set ?xs \<longleftrightarrow> dst z0 = u"
    proof
      assume "eid z0 \<in> eid ` set ?xs"
      then obtain x where x: "x \<in> set (edges graph)" "dst x = u" "eid z0 = eid x"
        by (auto simp: in_edges_def)
      from same [OF z0(1) x(1) x(3)] x(2) show "dst z0 = u" by simp
    next
      assume "dst z0 = u"
      with z0(1) show "eid z0 \<in> eid ` set ?xs" by (auto simp: in_edges_def)
    qed
    with z0(2) show "(eid z \<notin> eid ` set ?xs) = (dst z \<noteq> u)" by simp
  qed
  have b: "map (\<lambda>x. (?ren (current graph x))\<lparr>dst := v\<rparr>) ?xs
             = map (\<lambda>x. x\<lparr>dst := v\<rparr>) (filter (\<lambda>x. dst x = u) (map ?ren (edges graph)))"
  proof -
    have "map (\<lambda>x. (?ren (current graph x))\<lparr>dst := v\<rparr>) ?xs = map (\<lambda>x. (?ren x)\<lparr>dst := v\<rparr>) ?xs"
      by (rule map_cong [OF refl]) (simp add: in_edges_def current_mem [OF d])
    also have "\<dots> = map (\<lambda>x. x\<lparr>dst := v\<rparr>) (filter (\<lambda>x. dst x = u) (map ?ren (edges graph)))"
      by (simp add: in_edges_def filter_map comp_def)
    finally show ?thesis .
  qed
  show ?thesis unfolding loop a b by (simp add: Let_def)
qed

text \<open>
  C6: \<^verbatim>\<open>RedundantArray.apply\<close> does exactly what the specification says. For a
  candidate that binds two data nodes of a graph with distinct edge objects, and
  a \<^verbatim>\<open>memlet_path\<close> that depends only on the skeleton, \<^verbatim>\<open>apply\<close> returns, and the
  state it leaves is \<open>forward_apply_spec\<close> of the state it found: the segments on the
  paths of the incoming edges renamed, the incoming edges redirected to the
  second array, and the first array, and no other node, removed (with the edges
  still attached to it, as \<^verbatim>\<open>remove_node\<close> does). Outside the graph only the removal
  counter can change.
\<close>

theorem forward_apply_exact:
  assumes "list_get (states (program w)) (state_id t) = Inr graph"
    and "list_get (nodes graph) (c_in_array (subgraph t)) = Inr in_array"
    and "list_get (nodes graph) (c_out_array (subgraph t)) = Inr out_array"
    and "ntype in_array = AccessNode in_data"
    and "ntype out_array = AccessNode out_data"
    and "distinct (map eid (edges graph))"
    and "\<forall>g' x x'. x \<in> set (in_edges graph in_array) \<longrightarrow> nodes g' = nodes graph
           \<longrightarrow> skeleton g' = skeleton graph \<longrightarrow> endpoints x' = endpoints x
           \<longrightarrow> memlet_path g' x' = memlet_path graph x"
  shows "RedundantArray_apply memlet_path t w
           = Inr (let w1 = set_state w (state_id t)
                             (forward_apply_spec memlet_path graph in_array out_array
                                in_data out_data)
                  in if debugprint w
                     then w1\<lparr>RedundantArray_arrays_removed := RedundantArray_arrays_removed w + 1\<rparr>
                     else w1)
         \<and> nodes (forward_apply_spec memlet_path graph in_array out_array in_data out_data)
             = filter (\<lambda>n. n \<noteq> in_array) (nodes graph)"
proof
  have nd: "node_data in_array = Inr in_data" "node_data out_array = Inr out_data"
    using assms(4,5) by (simp_all add: node_data_access)
  have acc: "is_access in_array" "is_access out_array"
    using assms(4,5) by (simp_all add: is_access_AccessNode)
  show "RedundantArray_apply memlet_path t w
           = Inr (let w1 = set_state w (state_id t)
                             (forward_apply_spec memlet_path graph in_array out_array
                                in_data out_data)
                  in if debugprint w
                     then w1\<lparr>RedundantArray_arrays_removed := RedundantArray_arrays_removed w + 1\<rparr>
                     else w1)"
    unfolding RedundantArray_apply_def
    by (simp add: assms(1-3) in_loop_whole [OF nd acc assms(6,7)] forward_apply_spec_def
        Let_def set_state_def)
  show "nodes (forward_apply_spec memlet_path graph in_array out_array in_data out_data)
             = filter (\<lambda>n. n \<noteq> in_array) (nodes graph)"
    by (simp add: forward_apply_spec_def remove_node_def Let_def)
qed

lemma scoped_forward_spec:
  "forward_apply_spec scoped_path scoped_graph scoped_B scoped_C ''B'' ''C'' = scoped_graph_forward"
  by (simp add: forward_apply_spec_def scoped_path_def in_edges_def rename_segment_def
      remove_node_def scoped_graph_def scoped_graph_forward_def scoped_B_def scoped_C_def
      scoped_exit_def scoped_tasklet_def Let_def)

theorem forward_apply_exact_witness:
  "RedundantArray_apply scoped_path scoped_transformation scoped_world = Inr scoped_world_forward
   \<and> forward_apply_spec scoped_path scoped_graph scoped_B scoped_C ''B'' ''C''
       = scoped_graph_forward
   \<and> nodes scoped_graph_forward = filter (\<lambda>n. n \<noteq> scoped_B) (nodes scoped_graph)"
proof -
  have 1: "list_get (states (program scoped_world)) (state_id scoped_transformation)
             = Inr scoped_graph"
    by (simp add: scoped_world_def scoped_transformation_def)
  have 2: "list_get (nodes scoped_graph) (c_in_array (subgraph scoped_transformation))
             = Inr scoped_B"
    and 3: "list_get (nodes scoped_graph) (c_out_array (subgraph scoped_transformation))
             = Inr scoped_C"
    by (simp_all add: list_get_def scoped_graph_def scoped_transformation_def)
  have 4: "ntype scoped_B = AccessNode ''B''" and 5: "ntype scoped_C = AccessNode ''C''"
    by (simp_all add: scoped_B_def scoped_C_def)
  have 6: "distinct (map eid (edges scoped_graph))" by (simp add: scoped_graph_def)
  have 7: "\<forall>g' x x'. x \<in> set (in_edges scoped_graph scoped_B) \<longrightarrow> nodes g' = nodes scoped_graph
           \<longrightarrow> skeleton g' = skeleton scoped_graph \<longrightarrow> endpoints x' = endpoints x
           \<longrightarrow> scoped_path g' x' = scoped_path scoped_graph x"
    by (simp add: scoped_path_def endpoints_def)
  from forward_apply_exact [OF 1 2 3 4 5 6 7]
  have "RedundantArray_apply scoped_path scoped_transformation scoped_world
           = Inr (let w1 = set_state scoped_world (state_id scoped_transformation)
                             (forward_apply_spec scoped_path scoped_graph scoped_B scoped_C
                                ''B'' ''C'')
                  in if debugprint scoped_world
                     then w1\<lparr>RedundantArray_arrays_removed :=
                              RedundantArray_arrays_removed scoped_world + 1\<rparr>
                     else w1)"
    and n: "nodes (forward_apply_spec scoped_path scoped_graph scoped_B scoped_C ''B'' ''C'')
             = filter (\<lambda>n. n \<noteq> scoped_B) (nodes scoped_graph)"
    by simp_all
  then have "RedundantArray_apply scoped_path scoped_transformation scoped_world
               = Inr scoped_world_forward"
    by (simp add: scoped_forward_spec scoped_world_def scoped_world_forward_def
        scoped_transformation_def set_state_def)
  with n show ?thesis by (simp add: scoped_forward_spec)
qed


end
